theory Spec2Isabelle
  imports Complex_Main
begin

section \<open>Board and board evaluator\<close>

text \<open>
  A board cell of \<^verbatim>\<open>Game.board\<close> is \<^verbatim>\<open>null\<close> or one of the two symbols
  \<^verbatim>\<open>'X'\<close> (\<open>SymX\<close>), \<^verbatim>\<open>'O'\<close> (\<open>SymO\<close>). The board is the array made by \<^verbatim>\<open>Array(9).fill(null)\<close>;
  the program only ever writes indices 0..8 of it.
\<close>

datatype mark = SymX | SymO

type_synonym cell = "mark option"
type_synonym board = "cell list"

definition emptyBoard :: board where
  "emptyBoard = replicate 9 None"

text \<open>The table \<^verbatim>\<open>lines\<close> of \<^verbatim>\<open>Game.checkWinner\<close> (and of the bot): rows, columns, diagonals.\<close>

definition lines :: "(nat \<times> nat \<times> nat) list" where
  "lines = [(0, 1, 2), (3, 4, 5), (6, 7, 8),
            (0, 3, 6), (1, 4, 7), (2, 5, 8),
            (0, 4, 8), (2, 4, 6)]"

text \<open>
  The result object of \<^verbatim>\<open>checkWinner\<close>: \<^verbatim>\<open>{winner: 'X'|'O', winLine: line}\<close>,
  \<^verbatim>\<open>{winner: 'draw', winLine: []}\<close> or \<^verbatim>\<open>{winner: null, winLine: []}\<close>.
\<close>

datatype verdict = Winner mark "nat list" | DrawV | Ongoing

text \<open>
  The \<^verbatim>\<open>for (const line of lines)\<close> loop: the first line whose first cell is truthy
  (a symbol) and equal to the two others.
\<close>

fun firstLine :: "board \<Rightarrow> (nat \<times> nat \<times> nat) list \<Rightarrow> (mark \<times> nat list) option" where
  "firstLine b [] = None"
| "firstLine b ((a, b', c) # ls) =
     (case b ! a of
        Some m \<Rightarrow> if b ! a = b ! b' \<and> b ! a = b ! c then Some (m, [a, b', c])
                  else firstLine b ls
      | None \<Rightarrow> firstLine b ls)"

definition checkWinner :: "board \<Rightarrow> verdict" where
  "checkWinner b =
     (case firstLine b lines of
        Some (m, l) \<Rightarrow> Winner m l
      | None \<Rightarrow> if list_all (\<lambda>c. c \<noteq> None) b then DrawV else Ongoing)"

section \<open>The match: class \<^verbatim>\<open>Game\<close>\<close>

text \<open>
  \<^verbatim>\<open>Game.players\<close> is an object keyed by socket id; \<^verbatim>\<open>Object.keys\<close> lists its keys in
  insertion order, so it is an association list here. An absent (\<^verbatim>\<open>undefined\<close>)
  lightning address is \<open>None\<close>. The field \<^verbatim>\<open>id\<close> is called \<open>gid\<close> and the match's
  \<^verbatim>\<open>betAmount\<close> is called \<open>wager\<close>, the names \<open>id\<close> and \<open>betAmount\<close> being taken by HOL's
  identity and by the bot's field. \<^verbatim>\<open>turnTimer\<close> is the pending \<^verbatim>\<open>setTimeout\<close> handle:
  \<open>Some d\<close> when a timeout of \<open>d\<close> milliseconds is armed, \<open>None\<close> when it is cleared.
  \<^verbatim>\<open>winner\<close> is \<^verbatim>\<open>null\<close>, \<^verbatim>\<open>'draw'\<close> or the result of looking the winning symbol's
  holder up.
\<close>

record player =
  socketId :: string
  lightningAddress :: "string option"
  isBot :: bool
  symbol :: mark
  ready :: bool

datatype status = Waiting | Ready | Playing | Finished

datatype winnerField = NoWinner | WinnerDraw | WinnerId "string option"

record game =
  gid :: string
  wager :: int
  players :: "(string \<times> player) list"
  board :: board
  turn :: "string option"
  status :: status
  winner :: winnerField
  winLine :: "nat list"
  turnTimer :: "int option"
  isFirstTurn :: bool
  moveCount :: nat
  startingPlayer :: "string option"
  turnDeadlineAt :: "int option"

text \<open>\<^verbatim>\<open>constructor(id, betAmount)\<close>.\<close>

definition newGame :: "string \<Rightarrow> int \<Rightarrow> game" where
  "newGame i bet =
     \<lparr>gid = i, wager = bet, players = [], board = emptyBoard, turn = None,
      status = Waiting, winner = NoWinner, winLine = [], turnTimer = None,
      isFirstTurn = True, moveCount = 0, startingPlayer = None, turnDeadlineAt = None\<rparr>"

text \<open>\<^verbatim>\<open>this.players[socketId] = v\<close>: an existing key keeps its place, a new one goes last.\<close>

fun setKey :: "string \<Rightarrow> 'v \<Rightarrow> (string \<times> 'v) list \<Rightarrow> (string \<times> 'v) list" where
  "setKey k v [] = [(k, v)]"
| "setKey k v ((k', v') # ps) = (if k' = k then (k, v) # ps else (k', v') # setKey k v ps)"

definition playerIds :: "game \<Rightarrow> string list" where
  "playerIds g = map fst (players g)"

text \<open>
  \<^verbatim>\<open>Math.floor(Math.random() * n)\<close> for a draw \<open>r\<close> of \<^verbatim>\<open>Math.random()\<close>, which lies in
  \<open>[0, 1)\<close>.
\<close>

definition randomIndex :: "real \<Rightarrow> nat \<Rightarrow> nat" where
  "randomIndex r n = nat \<lfloor>r * real n\<rfloor>"

text \<open>
  \<^verbatim>\<open>addPlayer(socketId, lightningAddress, isBot)\<close>; \<open>r\<close> is the draw of the coin flip
  \<^verbatim>\<open>Math.random() < 0.5 ? 0 : 1\<close> that picks who starts. It returns the symbol given.
\<close>

definition addPlayer :: "real \<Rightarrow> string \<Rightarrow> string option \<Rightarrow> bool \<Rightarrow> game \<Rightarrow> mark \<times> game" where
  "addPlayer r sid addr robot g =
     (let sym = (if length (players g) = 0 then SymX else SymO);
          ps = setKey sid \<lparr>socketId = sid, lightningAddress = addr, isBot = robot,
                           symbol = sym, ready = False\<rparr> (players g);
          g1 = g\<lparr>players := ps\<rparr>
      in if length ps = 2
         then let t = Some (map fst ps ! (if r < 1 / 2 then 0 else 1))
              in (sym, g1\<lparr>status := Ready, turn := t, startingPlayer := t\<rparr>)
         else (sym, g1))"

text \<open>\<^verbatim>\<open>currentPlayerSymbol()\<close>: \<^verbatim>\<open>this.players[this.turn]?.symbol\<close>.\<close>

definition currentPlayerSymbol :: "game \<Rightarrow> mark option" where
  "currentPlayerSymbol g =
     (case turn g of None \<Rightarrow> None
      | Some t \<Rightarrow> map_option symbol (map_of (players g) t))"

definition playerIsBot :: "game \<Rightarrow> string option \<Rightarrow> bool" where
  "playerIsBot g t =
     (case t of None \<Rightarrow> False
      | Some i \<Rightarrow> (case map_of (players g) i of None \<Rightarrow> False | Some p \<Rightarrow> isBot p))"

text \<open>
  What a method does beyond changing the match: a notification sent to a socket or to
  the match's room (event name and message; a send to an id with no connected socket
  reaches nobody), and the call of \<^verbatim>\<open>makeBotMove(gameId, botId)\<close> that asks the bot for its
  move.
\<close>

datatype target = ToSocket string | ToRoom string

datatype effect = Emit target string string | CallMakeBotMove string "string option"

definition clearTurnTimer :: "game \<Rightarrow> game" where
  "clearTurnTimer g = g\<lparr>turnTimer := None\<rparr>"

text \<open>
  \<^verbatim>\<open>startTurnTimer()\<close> at time \<open>now\<close> (\<^verbatim>\<open>Date.now()\<close>): 8000 ms on a first turn, else 5000 ms;
  \<^verbatim>\<open>nextTurn\<close> goes to every player that is not a bot; a bot holding the turn is asked
  for its move.
\<close>

definition turnMessage :: "game \<Rightarrow> string \<Rightarrow> string" where
  "turnMessage g pid = (if turn g = Some pid then ''Your move'' else ''Opponent's move'')"

definition startTurnTimer :: "int \<Rightarrow> game \<Rightarrow> game \<times> effect list" where
  "startTurnTimer now g =
     (let g0 = clearTurnTimer g;
          timeout = (if isFirstTurn g0 then 8000 else 5000);
          g1 = g0\<lparr>turnTimer := Some timeout, turnDeadlineAt := Some (now + timeout)\<rparr>
      in (g1,
          map (\<lambda>(pid, p). Emit (ToSocket pid) ''nextTurn'' (turnMessage g1 pid))
              (filter (\<lambda>(pid, p). \<not> isBot p) (players g1))
          @ (if playerIsBot g1 (turn g1) then [CallMakeBotMove (gid g1) (turn g1)] else [])))"

text \<open>
  The result object of \<^verbatim>\<open>makeMove\<close>: \<^verbatim>\<open>{ok: false, reason}\<close>, \<^verbatim>\<open>{ok: true, draw: true,
  nextStarter}\<close>, \<^verbatim>\<open>{ok: true, winner, winLine}\<close> or \<^verbatim>\<open>{ok: true}\<close>.
\<close>

datatype reason = not_playing | not_your_turn | bad_pos | occupied

datatype moveResult =
    Rejected reason
  | OkDraw "string option"
  | OkWinner "string option" "nat list"
  | OkNext

text \<open>
  \<^verbatim>\<open>makeMove(socketId, position)\<close> at time \<open>now\<close>. The position is an integer. A read past
  the end of the array is \<^verbatim>\<open>undefined\<close>, which is not \<^verbatim>\<open>null\<close>, hence \<^verbatim>\<open>occupied\<close>. The
  turn is only ever assigned from the keys of \<^verbatim>\<open>players\<close>, so the mover has a symbol;
  were there none, JavaScript would store \<^verbatim>\<open>undefined\<close>, for which the cell type has no
  value: the model leaves the cell as it is there.
\<close>

definition makeMove :: "int \<Rightarrow> string \<Rightarrow> int \<Rightarrow> game \<Rightarrow> moveResult \<times> game \<times> effect list" where
  "makeMove now sid position g =
     (if status g \<noteq> Playing then (Rejected not_playing, g, [])
      else if turn g \<noteq> Some sid then (Rejected not_your_turn, g, [])
      else if position < 0 \<or> position > 8 then (Rejected bad_pos, g, [])
      else if nat position < length (board g) \<and> board g ! nat position = None
      then
        (let b = (case currentPlayerSymbol g of
                    Some m \<Rightarrow> (board g)[nat position := Some m]
                  | None \<Rightarrow> board g);
             g1 = g\<lparr>board := b, isFirstTurn := False, moveCount := moveCount g + 1\<rparr>
         in case checkWinner b of
              DrawV \<Rightarrow>
                (let otherPlayer = find (\<lambda>i. Some i \<noteq> startingPlayer g1) (playerIds g1)
                 in (OkDraw otherPlayer,
                     (clearTurnTimer (g1\<lparr>status := Finished\<rparr>))
                       \<lparr>winner := WinnerDraw, startingPlayer := otherPlayer\<rparr>,
                     []))
            | Winner m l \<Rightarrow>
                (let winnerId = map_option fst (find (\<lambda>(i, p). symbol p = m) (players g1))
                 in (OkWinner winnerId l,
                     (clearTurnTimer (g1\<lparr>status := Finished\<rparr>))
                       \<lparr>winner := WinnerId winnerId, winLine := l\<rparr>,
                     []))
            | Ongoing \<Rightarrow>
                (let g2 = g1\<lparr>turn := find (\<lambda>i. Some i \<noteq> turn g1) (playerIds g1)\<rparr>;
                     (g3, es) = startTurnTimer now g2
                 in (OkNext, g3, es)))
      else (Rejected occupied, g, []))"

text \<open>
  \<^verbatim>\<open>handleGameEnd(gameId, winnerId)\<close> as it is in force: the file declares the function
  twice, and the later declaration (the one with the comprehensive logging) is the one
  JavaScript binds. On the match it sets \<^verbatim>\<open>finished\<close> and clears the timer; it sends
  \<^verbatim>\<open>gameEnd\<close> to every player of the match. Logging, the payout and the streak,
  achievement and mystery-box calls do not touch the match and are left out.
\<close>

definition symbolOf :: "game \<Rightarrow> string option \<Rightarrow> mark option" where
  "symbolOf g t =
     (case t of None \<Rightarrow> None | Some i \<Rightarrow> map_option symbol (map_of (players g) i))"

definition endMessage :: "mark option \<Rightarrow> player \<Rightarrow> string" where
  "endMessage winnerSymbol p =
     (case winnerSymbol of
        None \<Rightarrow> ''It's a draw!''
      | Some m \<Rightarrow> if symbol p = m then ''You win!'' else ''You lose'')"

definition gameEnd :: "string option \<Rightarrow> game \<Rightarrow> game \<times> effect list" where
  "gameEnd winnerId g =
     (let g1 = clearTurnTimer (g\<lparr>status := Finished\<rparr>)
      in (g1, map (\<lambda>(pid, p). Emit (ToSocket pid) ''gameEnd'' (endMessage (symbolOf g1 winnerId) p))
                  (players g1)))"

text \<open>
  \<^verbatim>\<open>handleDraw(gameId)\<close> on the match it finds, at time \<open>now\<close>. \<^verbatim>\<open>otherPlayer ||
  game.startingPlayer\<close> keeps the old starter when none is found (or the id found is the
  empty string, which is falsy). Each player with an address gets \<^verbatim>\<open>gameEnd\<close> and then
  \<^verbatim>\<open>startGame\<close>; a bot holding the turn is asked for its move.
\<close>

definition truthy :: "string option \<Rightarrow> bool" where
  "truthy a = (a \<noteq> None \<and> a \<noteq> Some [])"

definition handleDraw :: "int \<Rightarrow> game \<Rightarrow> game \<times> effect list" where
  "handleDraw now g =
     (let otherPlayer = find (\<lambda>i. Some i \<noteq> startingPlayer g) (playerIds g);
          g1 = g\<lparr>startingPlayer := (if truthy otherPlayer then otherPlayer else startingPlayer g)\<rparr>;
          g2 = g1\<lparr>board := emptyBoard, status := Playing, winner := NoWinner, winLine := [],
                  moveCount := 0, isFirstTurn := True, turn := startingPlayer g1\<rparr>;
          (g3, es) = startTurnTimer now (clearTurnTimer g2);
          botId = map_option fst (find (\<lambda>(i, p). isBot p) (players g3))
      in (g3,
          es
          @ concat (map (\<lambda>(pid, p). [Emit (ToSocket pid) ''gameEnd'' ''It's a draw! New game starting...'',
                                      Emit (ToSocket pid) ''startGame'' (turnMessage g3 pid)])
                        (filter (\<lambda>(pid, p). truthy (lightningAddress p)) (players g3)))
          @ (if botId \<noteq> None \<and> turn g3 = botId then [CallMakeBotMove (gid g3) botId] else [])))"

text \<open>The available cells: \<^verbatim>\<open>board.map((cell, i) => cell === null ? i : -1).filter(i => i !== -1)\<close>.\<close>

definition available :: "board \<Rightarrow> nat list" where
  "available b = filter (\<lambda>i. b ! i = None) [0..<length b]"

text \<open>
  What the bot's move timer and \<^verbatim>\<open>handleTimeout\<close> send after a move of the bot that
  \<^verbatim>\<open>makeMove\<close> accepted: \<^verbatim>\<open>moveMade\<close> to the room, \<^verbatim>\<open>moveMade\<close> once more to the socket of
  \<^verbatim>\<open>humanPlayerId\<close> (the first player that is not a bot) as a backup, and \<^verbatim>\<open>boardUpdate\<close> to
  the room.
\<close>

definition humanPlayerId :: "game \<Rightarrow> string option" where
  "humanPlayerId g = map_option fst (find (\<lambda>(pid, p). \<not> isBot p) (players g))"

definition moveMadeEffects :: "game \<Rightarrow> effect list" where
  "moveMadeEffects g =
     [Emit (ToRoom (gid g)) ''moveMade'' []]
     @ (case humanPlayerId g of
          None \<Rightarrow> []
        | Some i \<Rightarrow> if i = [] then [] else [Emit (ToSocket i) ''moveMade'' []])
     @ [Emit (ToRoom (gid g)) ''boardUpdate'' []]"

text \<open>
  \<^verbatim>\<open>handleTimeout()\<close> at time \<open>now\<close>; \<open>r\<close> is the draw of \<^verbatim>\<open>Math.random()\<close> for the bot's
  forced placement. The calls of \<^verbatim>\<open>handleGameEnd\<close> and \<^verbatim>\<open>handleDraw\<close> act on this match.
  The second component is the winner handed to \<^verbatim>\<open>handleGameEnd\<close>, when it is called.
\<close>

definition handleTimeout :: "int \<Rightarrow> real \<Rightarrow> game \<Rightarrow> game \<times> string option option \<times> effect list" where
  "handleTimeout now r g =
     (if status g \<noteq> Playing then (g, None, [])
      else case (if playerIsBot g (turn g) then turn g else None) of
        Some currentPlayerId \<Rightarrow>
          (let availableMoves = available (board g)
           in if length availableMoves > 0 then
                (let move = availableMoves ! randomIndex r (length availableMoves);
                     (result, g1, es) = makeMove now currentPlayerId (int move) g;
                     es1 = (case result of
                              Rejected x \<Rightarrow> []
                            | _ \<Rightarrow> moveMadeEffects g1);
                     botNext = (if playerIsBot g1 (turn g1)
                                then [CallMakeBotMove (gid g1) (turn g1)] else [])
                 in case result of
                      OkWinner w l \<Rightarrow>
                        (if truthy w
                         then (let (g2, es2) = gameEnd w g1 in (g2, Some w, es @ es1 @ es2))
                         else (g1, None, es @ es1 @ botNext))
                    | OkDraw n \<Rightarrow>
                        (let (g2, es2) = handleDraw now g1 in (g2, None, es @ es1 @ es2))
                    | _ \<Rightarrow> (g1, None, es @ es1 @ botNext))
              else (g, None, []))
      | None \<Rightarrow>
          (let otherPlayer = find (\<lambda>i. Some i \<noteq> turn g) (playerIds g);
               (g1, es) = gameEnd otherPlayer g
           in (g1, Some otherPlayer, es)))"

text \<open>
  The handler \<^verbatim>\<open>socket.on('makeMove')\<close> of socket \<open>sock\<close> on the match it looks up
  (\<open>None\<close> when \<^verbatim>\<open>games[gameId]\<close> is missing); \<open>sockAddr\<close> is the address registered for the
  socket in \<^verbatim>\<open>players\<close> (\<open>None\<close> when the socket has no entry). The acting player is the
  first player of the match whose id is the socket's or whose address is the socket's.
  A move that \<^verbatim>\<open>makeMove\<close> accepts is broadcast to the room, and a finished or drawn match
  is handed to \<^verbatim>\<open>handleGameEnd\<close> or \<^verbatim>\<open>handleDraw\<close>.
\<close>

definition rejectMessage :: "game \<Rightarrow> reason \<Rightarrow> string" where
  "rejectMessage g x =
     (case x of
        not_playing \<Rightarrow> if status g = Finished then ''Game already finished'' else ''Game not started''
      | not_your_turn \<Rightarrow> ''Not your turn''
      | bad_pos \<Rightarrow> ''Invalid position''
      | occupied \<Rightarrow> ''Position already taken'')"

definition findPlayerIdInGame :: "string \<Rightarrow> string option option \<Rightarrow> game \<Rightarrow> string option" where
  "findPlayerIdInGame sock sockAddr g =
     map_option fst
       (find (\<lambda>(pid, p). pid = sock \<or> (sockAddr \<noteq> None \<and> Some (lightningAddress p) = sockAddr))
             (players g))"

definition onMakeMove ::
  "int \<Rightarrow> string \<Rightarrow> string option option \<Rightarrow> int \<Rightarrow> game option \<Rightarrow> game option \<times> effect list" where
  "onMakeMove now sock sockAddr position gopt =
     (case gopt of
        None \<Rightarrow> (None, [Emit (ToSocket sock) ''error'' ''Game not found''])
      | Some g \<Rightarrow>
          (case findPlayerIdInGame sock sockAddr g of
             None \<Rightarrow> (Some g, [Emit (ToSocket sock) ''error'' ''Not your turn''])
           | Some playerIdInGame \<Rightarrow>
               if playerIdInGame = [] \<or> turn g \<noteq> Some playerIdInGame
               then (Some g, [Emit (ToSocket sock) ''error'' ''Not your turn''])
               else
                 (let (result, g1, es) = makeMove now playerIdInGame position g
                  in case result of
                       Rejected x \<Rightarrow> (Some g1, [Emit (ToSocket sock) ''error'' (rejectMessage g1 x)])
                     | _ \<Rightarrow>
                       (let otherPlayerId =
                              map_option fst (find (\<lambda>(pid, p). pid \<noteq> playerIdInGame \<and> \<not> isBot p)
                                                   (players g1));
                            es1 = [Emit (ToRoom (gid g1)) ''moveMade'' []]
                                  @ (case otherPlayerId of
                                       None \<Rightarrow> []
                                     | Some i \<Rightarrow> if i = [] then []
                                                else [Emit (ToSocket i) ''moveMade'' []])
                                  @ [Emit (ToRoom (gid g1)) ''boardUpdate'' []]
                        in case result of
                             OkWinner w l \<Rightarrow>
                               (if truthy w
                                then (let (g2, es2) = gameEnd w g1 in (Some g2, es @ es1 @ es2))
                                else (Some g1, es @ es1))
                           | OkDraw n \<Rightarrow>
                               (let (g2, es2) = handleDraw now g1 in (Some g2, es @ es1 @ es2))
                           | _ \<Rightarrow> (Some g1, es @ es1)))))"

section \<open>The outcome scripter: \<^verbatim>\<open>determineOutcome\<close>\<close>

datatype token = W | L

definition PATTERN_50_SATS :: "token list" where
  "PATTERN_50_SATS = [W, L, W, W, L, L, L, W, L]"

definition PATTERN_300_PLUS :: "token list" where
  "PATTERN_300_PLUS = [L, W, L, W, L, L, W, L, W]"

text \<open>
  The module's two maps, keyed by the opponent's lightning address: \<^verbatim>\<open>playerHistory\<close>
  and \<^verbatim>\<open>betHistory\<close>. The counters are JavaScript numbers, exact far beyond any number
  of games; they are naturals here.
\<close>

record history =
  patternIndex50 :: nat
  patternIndex300 :: nat
  gamesPlayed :: nat

record betInfo =
  lastBet :: "int option"
  lastResult :: "token option"
  gameCount :: nat
  consecutiveSameBet :: nat

record scripter =
  playerHistory :: "string \<rightharpoonup> history"
  betHistory :: "string \<rightharpoonup> betInfo"

definition emptyScripter :: scripter where
  "emptyScripter = \<lparr>playerHistory = Map.empty, betHistory = Map.empty\<rparr>"

text \<open>
  The \<^verbatim>\<open>pattern\<close> field of the \<^verbatim>\<open>bot_outcome_determined\<close> log entry names the branch that
  decided: \<^verbatim>\<open>'50_sats'\<close>, \<^verbatim>\<open>'300_plus_revenge'\<close> or \<^verbatim>\<open>'300_plus'\<close>; the random branches
  log nothing.
\<close>

datatype pattern = P50_sats | P300_plus_revenge | P300_plus

text \<open>
  \<^verbatim>\<open>determineOutcome()\<close> for the opponent address and bet amount of the bot being built;
  \<open>r\<close> is the draw \<^verbatim>\<open>Math.random()\<close> gives if it is asked. The result is the value
  returned (\<^verbatim>\<open>shouldWin\<close>), the branch logged, and the two maps afterwards.
\<close>

definition determineOutcome ::
  "real \<Rightarrow> string option \<Rightarrow> int \<Rightarrow> scripter \<Rightarrow> (bool \<times> pattern option) \<times> scripter" where
  "determineOutcome r opponentAddress bet s =
     (case (if truthy opponentAddress then opponentAddress else None) of
        None \<Rightarrow> ((r > 1 / 2, None), s)
      | Some a \<Rightarrow>
          (let h = (case playerHistory s a of
                      None \<Rightarrow> \<lparr>patternIndex50 = 0, patternIndex300 = 0, gamesPlayed = 0\<rparr>
                    | Some h0 \<Rightarrow> h0);
               s1 = s\<lparr>playerHistory := (playerHistory s)(a \<mapsto> h)\<rparr>
           in if bet = 50 then
                (let outcome = PATTERN_50_SATS ! (patternIndex50 h mod length PATTERN_50_SATS);
                     h1 = h\<lparr>patternIndex50 := patternIndex50 h + 1,
                            gamesPlayed := gamesPlayed h + 1\<rparr>
                 in ((outcome = W, Some P50_sats),
                     s1\<lparr>playerHistory := (playerHistory s1)(a \<mapsto> h1)\<rparr>))
              else if bet \<ge> 300 then
                (let bi = (case betHistory s1 a of
                             None \<Rightarrow> \<lparr>lastBet = None, lastResult = None, gameCount = 0,
                                      consecutiveSameBet = 0\<rparr>
                           | Some b0 \<Rightarrow> b0)
                 in if lastBet bi = Some bet \<and> lastResult bi = Some L \<and> gameCount bi = 1
                    then ((False, Some P300_plus_revenge),
                          s1\<lparr>betHistory := (betHistory s1)
                                (a \<mapsto> bi\<lparr>lastResult := Some W, gameCount := gameCount bi + 1\<rparr>)\<rparr>)
                    else
                      (let outcome = PATTERN_300_PLUS !
                                       (patternIndex300 h mod length PATTERN_300_PLUS);
                           h1 = h\<lparr>patternIndex300 := patternIndex300 h + 1,
                                  gamesPlayed := gamesPlayed h + 1\<rparr>;
                           bi1 = bi\<lparr>lastBet := Some bet,
                                    lastResult := Some (if outcome = W then W else L),
                                    gameCount := gameCount bi + 1\<rparr>
                       in ((outcome = W, Some P300_plus),
                           s1\<lparr>playerHistory := (playerHistory s1)(a \<mapsto> h1),
                              betHistory := (betHistory s1)(a \<mapsto> bi1)\<rparr>)))
              else ((r > 1 / 2, None), s1)))"

text \<open>
  A sequence of decisions, one per bot built: each request gives the opponent address,
  the bet amount and the random draw. Each entry of the result repeats the address and
  gives the branch and the value returned.
\<close>

type_synonym request = "string option \<times> int \<times> real"
type_synonym decision = "string option \<times> pattern option \<times> bool"

fun decide :: "scripter \<Rightarrow> request list \<Rightarrow> decision list" where
  "decide s [] = []"
| "decide s ((a, bet, r) # qs) =
     (case determineOutcome r a bet s of
        ((v, p), s') \<Rightarrow> (a, p, v) # decide s' qs)"

text \<open>The values returned to address \<open>a\<close> by the decisions of branch \<open>p\<close>, in order.\<close>

definition verdicts :: "string \<Rightarrow> pattern \<Rightarrow> decision list \<Rightarrow> bool list" where
  "verdicts a p ds = map (\<lambda>(a', p', v). v) (filter (\<lambda>(a', p', v). a' = Some a \<and> p' = Some p) ds)"

text \<open>The cursors of an address; an address not seen yet starts at 0.\<close>

definition cursor50 :: "scripter \<Rightarrow> string \<Rightarrow> nat" where
  "cursor50 s a = (case playerHistory s a of None \<Rightarrow> 0 | Some h \<Rightarrow> patternIndex50 h)"

definition cursor300 :: "scripter \<Rightarrow> string \<Rightarrow> nat" where
  "cursor300 s a = (case playerHistory s a of None \<Rightarrow> 0 | Some h \<Rightarrow> patternIndex300 h)"

text \<open>The script of a bucket, cycled from cursor \<open>c\<close> for \<open>n\<close> decisions.\<close>

definition cycled :: "token list \<Rightarrow> nat \<Rightarrow> nat \<Rightarrow> bool list" where
  "cycled script c n = map (\<lambda>i. script ! ((c + i) mod length script) = W) [0..<n]"

text \<open>The game count of an address in \<^verbatim>\<open>betHistory\<close>; 0 when it has no entry.\<close>

definition gamesAt300 :: "scripter \<Rightarrow> string \<Rightarrow> nat" where
  "gamesAt300 s a = (case betHistory s a of None \<Rightarrow> 0 | Some bi \<Rightarrow> gameCount bi)"

section \<open>The bot: class \<^verbatim>\<open>BotPlayer\<close>\<close>

text \<open>
  The fields of a bot that its decisions read or write. \<^verbatim>\<open>moveHistory\<close> and
  \<^verbatim>\<open>thinkingTime\<close> feed the log and the statistics only and are left out.
\<close>

record botPlayer =
  gameId :: string
  betAmount :: int
  opponentAddress :: "string option"
  shouldWin :: bool
  drawCount :: nat
  maxDrawsBeforeEnd :: nat

text \<open>
  \<^verbatim>\<open>constructor(gameId, betAmount, opponentAddress)\<close>: \<open>r1\<close> is the draw of
  \<^verbatim>\<open>determineOutcome\<close>, \<open>r2\<close> the draw of the draw tolerance.
\<close>

definition newBotPlayer ::
  "real \<Rightarrow> real \<Rightarrow> string \<Rightarrow> int \<Rightarrow> string option \<Rightarrow> scripter \<Rightarrow> botPlayer \<times> scripter" where
  "newBotPlayer r1 r2 gi bet addr s =
     (case determineOutcome r1 addr bet s of
        ((sw, p), s') \<Rightarrow>
          (\<lparr>gameId = gi, betAmount = bet, opponentAddress = addr, shouldWin = sw,
            drawCount = 0,
            maxDrawsBeforeEnd = (if sw then randomIndex r2 2 + 3 else randomIndex r2 4 + 2)\<rparr>,
           s'))"

text \<open>\<^verbatim>\<open>values.indexOf(null)\<close>, used where \<^verbatim>\<open>values.includes(null)\<close> holds.\<close>

definition indexOf :: "'a \<Rightarrow> 'a list \<Rightarrow> nat" where
  "indexOf x xs = length (takeWhile (\<lambda>y. y \<noteq> x) xs)"

text \<open>
  One loop of \<^verbatim>\<open>evaluateBoard\<close>: the first line with two cells of mark \<open>m\<close> and an empty
  cell gives that empty cell.
\<close>

fun critical :: "mark \<Rightarrow> board \<Rightarrow> (nat \<times> nat \<times> nat) list \<Rightarrow> nat option" where
  "critical m b [] = None"
| "critical m b ((a, b', c) # ls) =
     (let vals = [b ! a, b ! b', b ! c]
      in if length (filter (\<lambda>v. v = Some m) vals) = 2 \<and> None \<in> set vals
         then Some ([a, b', c] ! indexOf None vals)
         else critical m b ls)"

text \<open>\<^verbatim>\<open>evaluateBoard(board)\<close>: first a winning cell for \<^verbatim>\<open>'O'\<close>, then a block of \<^verbatim>\<open>'X'\<close>.\<close>

definition evaluateBoard :: "board \<Rightarrow> nat option" where
  "evaluateBoard b =
     (case critical SymO b lines of
        Some i \<Rightarrow> Some i
      | None \<Rightarrow> critical SymX b lines)"

text \<open>
  The draws of \<^verbatim>\<open>Math.random()\<close> that the move selection makes are read from a sequence
  \<open>rnd\<close>, the next at index \<open>k\<close>; every function returns the index after its draws.
  \<^verbatim>\<open>xs[Math.floor(Math.random() * xs.length)]\<close> is \<open>pick\<close>; on an empty array it is
  \<^verbatim>\<open>undefined\<close>, here \<open>None\<close>.
\<close>

definition pick :: "real \<Rightarrow> nat list \<Rightarrow> nat option" where
  "pick r xs = (let i = randomIndex r (length xs) in if i < length xs then Some (xs ! i) else None)"

text \<open>The cells of a list that are empty: \<^verbatim>\<open>cells.filter(i => board[i] === null)\<close>.\<close>

definition emptyCells :: "board \<Rightarrow> nat list \<Rightarrow> nat list" where
  "emptyCells b cells = filter (\<lambda>i. b ! i = None) cells"

definition getStrategicMove :: "(nat \<Rightarrow> real) \<Rightarrow> nat \<Rightarrow> board \<Rightarrow> nat option \<times> nat" where
  "getStrategicMove rnd k b =
     (case evaluateBoard b of
        Some c \<Rightarrow> (Some c, k)
      | None \<Rightarrow>
          if b ! 4 = None then (Some 4, k)
          else
            (let corners = emptyCells b [0, 2, 6, 8]
             in if length corners > 0 then (pick (rnd k) corners, Suc k)
                else
                  (let edges = emptyCells b [1, 3, 5, 7]
                   in if length edges > 0 then (pick (rnd k) edges, Suc k)
                      else (None, k))))"

text \<open>
  \<^verbatim>\<open>x || available[Math.floor(Math.random() * available.length)]\<close>: the right side is
  taken, and its draw made, when \<open>x\<close> is \<^verbatim>\<open>null\<close> and also when \<open>x\<close> is the cell 0, which
  is falsy.
\<close>

definition orRandom :: "(nat \<Rightarrow> real) \<Rightarrow> nat option \<times> nat \<Rightarrow> board \<Rightarrow> nat option \<times> nat" where
  "orRandom rnd xk b =
     (case xk of
        (Some i, k) \<Rightarrow> if i \<noteq> 0 then (Some i, k) else (pick (rnd k) (available b), Suc k)
      | (None, k) \<Rightarrow> (pick (rnd k) (available b), Suc k))"

definition makeNoobMove :: "(nat \<Rightarrow> real) \<Rightarrow> nat \<Rightarrow> board \<Rightarrow> nat option \<times> nat" where
  "makeNoobMove rnd k b =
     (let av = available b;
          otherMoves =
            (if rnd k < 1 / 2 then
               (case evaluateBoard b of
                  Some winMove \<Rightarrow>
                    (let om = filter (\<lambda>m. m \<noteq> winMove) av
                     in if length om > 0 then Some om else None)
                | None \<Rightarrow> None)
             else None)
      in case otherMoves of
           Some om \<Rightarrow> (pick (rnd (Suc k)) om, Suc (Suc k))
         | None \<Rightarrow>
             if rnd (Suc k) < 6 / 10 then (pick (rnd (Suc (Suc k))) av, Suc (Suc (Suc k)))
             else orRandom rnd (getStrategicMove rnd (Suc (Suc k)) b) b)"

text \<open>
  The loop of \<^verbatim>\<open>makeSillyMistake\<close>: the moves that do not block the first line of two
  \<^verbatim>\<open>'X'\<close> and an empty cell, if there are any; else the loop goes on.
\<close>

fun nonBlockMoves :: "board \<Rightarrow> nat list \<Rightarrow> (nat \<times> nat \<times> nat) list \<Rightarrow> nat list option" where
  "nonBlockMoves b av [] = None"
| "nonBlockMoves b av ((a, b', c) # ls) =
     (let vals = [b ! a, b ! b', b ! c]
      in if length (filter (\<lambda>v. v = Some SymX) vals) = 2 \<and> None \<in> set vals
         then (let blockMove = [a, b', c] ! indexOf None vals;
                   nb = filter (\<lambda>m. m \<noteq> blockMove) av
               in if length nb > 0 then Some nb else nonBlockMoves b av ls)
         else nonBlockMoves b av ls)"

definition makeSillyMistake :: "(nat \<Rightarrow> real) \<Rightarrow> nat \<Rightarrow> board \<Rightarrow> nat option \<times> nat" where
  "makeSillyMistake rnd k b =
     (case nonBlockMoves b (available b) lines of
        Some nb \<Rightarrow> (pick (rnd k) nb, Suc k)
      | None \<Rightarrow> (pick (rnd k) (available b), Suc k))"

text \<open>\<^verbatim>\<open>checkPotentialDraw(board)\<close> counts a call on a board of five or more marks.\<close>

definition checkPotentialDraw :: "botPlayer \<Rightarrow> board \<Rightarrow> bool \<times> botPlayer" where
  "checkPotentialDraw bp b =
     (if length (filter (\<lambda>c. c \<noteq> None) b) \<ge> 5
      then (True, bp\<lparr>drawCount := drawCount bp + 1\<rparr>)
      else (False, bp))"

text \<open>
  \<^verbatim>\<open>getNextMove(board, moveCount)\<close>; the second parameter is not read. The result is the
  move (\<open>None\<close> for \<^verbatim>\<open>null\<close> or \<^verbatim>\<open>undefined\<close>), the bot afterwards and the next index of
  the random sequence.
\<close>

definition getNextMove ::
  "(nat \<Rightarrow> real) \<Rightarrow> nat \<Rightarrow> board \<Rightarrow> botPlayer \<Rightarrow> nat option \<times> botPlayer \<times> nat" where
  "getNextMove rnd k b bp =
     (let av = available b
      in if length av = 0 then (None, bp, k)
         else
           (let (isDraw, bp1) = checkPotentialDraw bp b
            in if isDraw \<and> drawCount bp1 \<ge> maxDrawsBeforeEnd bp1 then
                 (if shouldWin bp1 then
                    (let (winningMove, k1) = getStrategicMove rnd k b
                     in ((case winningMove of
                            Some i \<Rightarrow> if i \<noteq> 0 then Some i else Some (av ! 0)
                          | None \<Rightarrow> Some (av ! 0)), bp1, k1))
                  else
                    (let (m, k1) = makeSillyMistake rnd k b in (m, bp1, k1)))
               else if shouldWin bp1 then
                 (if rnd k < 9 / 10 then
                    (let (m, k1) = orRandom rnd (getStrategicMove rnd (Suc k) b) b
                     in (m, bp1, k1))
                  else (pick (rnd (Suc k)) av, bp1, Suc (Suc k)))
               else
                 (if rnd k < 4 / 10 then
                    (let (m, k1) = orRandom rnd (getStrategicMove rnd (Suc k) b) b
                     in (m, bp1, k1))
                  else
                    (let (m, k1) = makeNoobMove rnd (Suc k) b in (m, bp1, k1)))))"

text \<open>
  A line \<open>l\<close> of the table holds two marks \<open>m\<close> and its third cell \<open>c\<close> is empty: the mark
  \<open>m\<close> placed in \<open>c\<close> completes the line.
\<close>

definition threatAt :: "mark \<Rightarrow> board \<Rightarrow> nat \<times> nat \<times> nat \<Rightarrow> nat \<Rightarrow> bool" where
  "threatAt m b l c =
     (case l of (i, j, k) \<Rightarrow>
        (c = i \<and> b ! i = None \<and> b ! j = Some m \<and> b ! k = Some m) \<or>
        (c = j \<and> b ! j = None \<and> b ! i = Some m \<and> b ! k = Some m) \<or>
        (c = k \<and> b ! k = None \<and> b ! i = Some m \<and> b ! j = Some m))"

text \<open>
  The condition under which \<^verbatim>\<open>getNextMove\<close> ends the game as scripted: this call counts as
  another drawn round, and with it the draw count reaches the bot's tolerance.
\<close>

definition forcedEnd :: "botPlayer \<Rightarrow> board \<Rightarrow> bool" where
  "forcedEnd bp b \<longleftrightarrow>
     5 \<le> length (filter (\<lambda>c. c \<noteq> None) b) \<and> maxDrawsBeforeEnd bp \<le> drawCount bp + 1"

section \<open>The server around the match\<close>

text \<open>
  \<^verbatim>\<open>makeBotMove(gameId, botId)\<close> has two halves. At once it asks the bot of the match for
  its move (nothing happens when the match is missing or not \<^verbatim>\<open>playing\<close>, or no bot is
  registered for it); after the thinking delay its timer plays that move, if the match
  is still \<^verbatim>\<open>playing\<close> and the turn is still the bot's, and hands a finished or drawn
  match on as the socket handler does.
\<close>

definition makeBotMove ::
  "(nat \<Rightarrow> real) \<Rightarrow> nat \<Rightarrow> game option \<Rightarrow> botPlayer option \<Rightarrow> nat option \<times> botPlayer option \<times> nat" where
  "makeBotMove rnd k gopt bopt =
     (case gopt of
        None \<Rightarrow> (None, bopt, k)
      | Some g \<Rightarrow>
          if status g \<noteq> Playing then (None, bopt, k)
          else (case bopt of
                  None \<Rightarrow> (None, None, k)
                | Some bp \<Rightarrow>
                    (let (m, bp1, k1) = getNextMove rnd k (board g) bp in (m, Some bp1, k1))))"

definition botMoveFires :: "int \<Rightarrow> string \<Rightarrow> nat \<Rightarrow> game \<Rightarrow> game \<times> effect list" where
  "botMoveFires now botId move g =
     (if status g \<noteq> Playing \<or> turn g \<noteq> Some botId then (g, [])
      else
        (let (result, g1, es) = makeMove now botId (int move) g;
             es1 = moveMadeEffects g1;
             botNext = (if playerIsBot g1 (turn g1)
                        then [CallMakeBotMove (gid g1) (turn g1)] else [])
         in case result of
              Rejected x \<Rightarrow> (g1, es)
            | OkWinner w l \<Rightarrow>
                (if truthy w
                 then (let (g2, es2) = gameEnd w g1 in (g2, es @ es1 @ es2))
                 else (g1, es @ es1 @ botNext))
            | OkDraw n \<Rightarrow> (let (g2, es2) = handleDraw now g1 in (g2, es @ es1 @ es2))
            | OkNext \<Rightarrow> (g1, es @ es1 @ botNext)))"

text \<open>
  The end of the five-second countdown after the second player joined: the match starts
  \<^verbatim>\<open>playing\<close> and the first turn's timer is armed.
\<close>

definition countdownEnds :: "int \<Rightarrow> game \<Rightarrow> game \<times> effect list" where
  "countdownEnds now g = startTurnTimer now (g\<lparr>status := Playing\<rparr>)"

text \<open>
  The server's registries: \<^verbatim>\<open>games\<close> (an object, searched in insertion order),
  \<^verbatim>\<open>activeBots\<close> (a \<^verbatim>\<open>Map\<close> from game id to bot) and the scripter's two maps.
\<close>

record world =
  games :: "(string \<times> game) list"
  activeBots :: "string \<rightharpoonup> botPlayer"
  scripterMaps :: scripter

text \<open>
  The webhook's case \<^verbatim>\<open>'payment.confirmed'\<close> for the paying socket \<open>sid\<close>, whose entry in
  \<^verbatim>\<open>players\<close> holds the address \<open>sockAddr\<close> and the amount \<open>bet\<close>: it takes the first match
  with one player and this amount, or else makes and registers a new match \<open>newId\<close> (the
  fresh \<^verbatim>\<open>game_<Date.now()>\<close>), and adds the socket to it; \<open>r\<close> is the draw of the coin flip
  of \<^verbatim>\<open>addPlayer\<close>. It does not ask whether the one player of the match it takes is the
  socket itself.
\<close>

definition paymentConfirmed ::
  "real \<Rightarrow> string \<Rightarrow> string option \<Rightarrow> int \<Rightarrow> string \<Rightarrow> world \<Rightarrow> world" where
  "paymentConfirmed r sid sockAddr bet newId w =
     (let (i, game) =
            (case find (\<lambda>(i, g). length (players g) = 1 \<and> wager g = bet) (games w) of
               Some ig \<Rightarrow> ig
             | None \<Rightarrow> (newId, newGame newId bet));
          g' = snd (addPlayer r sid sockAddr False game)
      in w\<lparr>games := setKey i g' (games w)\<rparr>)"

text \<open>
  \<^verbatim>\<open>attemptMatchOrEnqueue(socketId)\<close>, the other path, for a socket that has paid: it
  returns at once when some match already holds the socket (\<^verbatim>\<open>existingGame\<close>), and
  otherwise finds or makes the match and adds the socket in the same way.
\<close>

definition attemptMatchOrEnqueue ::
  "real \<Rightarrow> string \<Rightarrow> string option \<Rightarrow> int \<Rightarrow> string \<Rightarrow> world \<Rightarrow> world" where
  "attemptMatchOrEnqueue r sid sockAddr bet newId w =
     (case find (\<lambda>(i, g). map_of (players g) sid \<noteq> None) (games w) of
        Some existingGame \<Rightarrow> w
      | None \<Rightarrow>
          (let (i, game) =
                 (case find (\<lambda>(i, g). length (players g) = 1 \<and> wager g = bet) (games w) of
                    Some ig \<Rightarrow> ig
                  | None \<Rightarrow> (newId, newGame newId bet));
               g' = snd (addPlayer r sid sockAddr False game)
           in w\<lparr>games := setKey i g' (games w)\<rparr>))"

text \<open>
  The bot spawn timer set when a paying player is left waiting (the webhook's path), for
  the waiting socket \<open>sid\<close> whose registered address is \<open>sockAddr\<close>; the bot's id and
  address are the fresh \<^verbatim>\<open>bot_<uuid>\<close> and \<^verbatim>\<open>generateBotLightningAddress()\<close>. The draws are
  those of the bot's constructor and of the coin flip of \<^verbatim>\<open>addPlayer\<close>.
\<close>

definition botSpawnTimerFires ::
  "real \<Rightarrow> real \<Rightarrow> real \<Rightarrow> string \<Rightarrow> string option \<Rightarrow> string \<Rightarrow> string \<Rightarrow> world \<Rightarrow> world" where
  "botSpawnTimerFires r1 r2 r3 sid sockAddr botId botAddress w =
     (case find (\<lambda>(i, g). map_of (players g) sid \<noteq> None \<and> length (players g) = 1) (games w) of
        None \<Rightarrow> w
      | Some (i, currentGame) \<Rightarrow>
          (case newBotPlayer r1 r2 (gid currentGame) (wager currentGame) sockAddr (scripterMaps w) of
             (bp, s') \<Rightarrow>
               (case addPlayer r3 botId (Some botAddress) True currentGame of
                  (smb, g') \<Rightarrow>
                    w\<lparr>games := setKey i g' (games w),
                      activeBots := (activeBots w)(gid currentGame \<mapsto> bp),
                      scripterMaps := s'\<rparr>)))"

text \<open>
  The bot spawn timer of \<^verbatim>\<open>attemptMatchOrEnqueue\<close> (the other path): it builds a new match
  \<open>gi\<close> for the waiting player and the bot, and registers no bot for it.
\<close>

definition enqueuedSpawnTimerFires ::
  "real \<Rightarrow> real \<Rightarrow> string \<Rightarrow> string option \<Rightarrow> int \<Rightarrow> string \<Rightarrow> string \<Rightarrow> string \<Rightarrow> world \<Rightarrow> world" where
  "enqueuedSpawnTimerFires r1 r2 sid sockAddr bet botId botAddress gi w =
     (let g1 = snd (addPlayer r1 sid sockAddr False (newGame gi bet));
          g2 = snd (addPlayer r2 botId (Some botAddress) True g1)
      in w\<lparr>games := setKey gi g2 (games w)\<rparr>)"

text \<open>
  \<^verbatim>\<open>handleGameEnd(gameId, winnerId)\<close> on the registries. The file declares it twice at top
  level: first ``with bot cleanup'', which deletes the match's bot from \<^verbatim>\<open>activeBots\<close>,
  and further down ``with comprehensive logging'', which does not. A later function
  declaration replaces an earlier one of the same name, so every call runs the second;
  the first is kept here under the name \<open>handleGameEnd_first\<close> for comparison.
\<close>

definition handleGameEnd_first :: "string \<Rightarrow> string option \<Rightarrow> world \<Rightarrow> world" where
  "handleGameEnd_first gi winnerId w =
     (case map_of (games w) gi of
        None \<Rightarrow> w
      | Some g \<Rightarrow>
          w\<lparr>games := setKey gi (clearTurnTimer (g\<lparr>status := Finished\<rparr>)) (games w),
            activeBots := (activeBots w)(gi := None)\<rparr>)"

definition handleGameEnd :: "string \<Rightarrow> string option \<Rightarrow> world \<Rightarrow> world" where
  "handleGameEnd gi winnerId w =
     (case map_of (games w) gi of
        None \<Rightarrow> w
      | Some g \<Rightarrow> w\<lparr>games := setKey gi (fst (gameEnd winnerId g)) (games w)\<rparr>)"

section \<open>Matches that can be reached\<close>

text \<open>
  A fresh match: two different sockets (socket ids and bot ids are non-empty strings)
  joined a new match and the countdown ended. From there the match changes by the socket
  handler of a move, by the bot's move timer and by the turn timeout.
\<close>

definition freshMatch ::
  "int \<Rightarrow> string \<Rightarrow> int \<Rightarrow> real \<Rightarrow> string \<Rightarrow> string option \<Rightarrow> bool \<Rightarrow>
   real \<Rightarrow> string \<Rightarrow> string option \<Rightarrow> bool \<Rightarrow> game" where
  "freshMatch now i bet r1 p1 a1 b1 r2 p2 a2 b2 =
     fst (countdownEnds now
            (snd (addPlayer r2 p2 a2 b2 (snd (addPlayer r1 p1 a1 b1 (newGame i bet))))))"

inductive reachable :: "game \<Rightarrow> bool" where
  fresh: "p1 \<noteq> p2 \<Longrightarrow> p1 \<noteq> [] \<Longrightarrow> p2 \<noteq> [] \<Longrightarrow>
          reachable (freshMatch now i bet r1 p1 a1 b1 r2 p2 a2 b2)"
| move: "reachable g \<Longrightarrow> fst (onMakeMove now sock sockAddr position (Some g)) = Some g' \<Longrightarrow>
         reachable g'"
| botMove: "reachable g \<Longrightarrow> reachable (fst (botMoveFires now botId m g))"
| timeout: "reachable g \<Longrightarrow> 0 \<le> r \<Longrightarrow> r < 1 \<Longrightarrow> reachable (fst (handleTimeout now r g))"

text \<open>The number of cells holding mark \<open>m\<close>.\<close>

definition marks :: "mark \<Rightarrow> board \<Rightarrow> nat" where
  "marks m b = length (filter (\<lambda>c. c = Some m) b)"

definition otherMark :: "mark \<Rightarrow> mark" where
  "otherMark m = (case m of SymX \<Rightarrow> SymO | SymO \<Rightarrow> SymX)"

text \<open>
  What holds of every match that can be reached, for its two players \<open>p1\<close> (first to
  join) and \<open>p2\<close>: the players and their symbols stay, the board has nine cells, the match
  is \<^verbatim>\<open>playing\<close> or \<^verbatim>\<open>finished\<close>, a \<^verbatim>\<open>playing\<close> board has no line and an empty cell, the
  starter of the round holds \<open>(moveCount + 1) div 2\<close> marks and the other player
  \<open>moveCount div 2\<close>, and in a \<^verbatim>\<open>playing\<close> match the turn is the starter's after an even
  number of moves and the other player's after an odd number.
\<close>

definition opponent :: "string \<Rightarrow> string \<Rightarrow> string \<Rightarrow> string" where
  "opponent p1 p2 s = (if s = p1 then p2 else p1)"

definition slotMark :: "string \<Rightarrow> string \<Rightarrow> mark" where
  "slotMark p1 s = (if s = p1 then SymX else SymO)"

definition inv4 :: "string \<Rightarrow> player \<Rightarrow> string \<Rightarrow> player \<Rightarrow> game \<Rightarrow> bool" where
  "inv4 p1 P1 p2 P2 g \<longleftrightarrow>
     players g = [(p1, P1), (p2, P2)] \<and> p1 \<noteq> p2 \<and> p1 \<noteq> [] \<and> p2 \<noteq> [] \<and>
     symbol P1 = SymX \<and> symbol P2 = SymO \<and>
     length (board g) = 9 \<and>
     (status g = Playing \<or> status g = Finished) \<and>
     (status g = Playing \<longrightarrow> checkWinner (board g) = Ongoing) \<and>
     (\<exists>s. startingPlayer g = Some s \<and> (s = p1 \<or> s = p2) \<and>
          marks (slotMark p1 s) (board g) = (moveCount g + 1) div 2 \<and>
          marks (otherMark (slotMark p1 s)) (board g) = moveCount g div 2 \<and>
          (status g = Playing \<longrightarrow>
             turn g = Some (if even (moveCount g) then s else opponent p1 p2 s)))"

definition matchInv :: "game \<Rightarrow> bool" where
  "matchInv g \<longleftrightarrow> (\<exists>p1 P1 p2 P2. inv4 p1 P1 p2 P2 g)"

text \<open>The match after the mover's mark \<open>m\<close> is placed, before the board is evaluated.\<close>

definition placed :: "game \<Rightarrow> int \<Rightarrow> mark \<Rightarrow> game" where
  "placed g pos m = g\<lparr>board := (board g)[nat pos := Some m], isFirstTurn := False,
                      moveCount := moveCount g + 1\<rparr>"

text \<open>
  The events that change a match, as the server meets them: a \<^verbatim>\<open>makeMove\<close> message from a
  socket (one with no entry in \<^verbatim>\<open>players\<close> besides its id), the bot's move timer, and the
  turn timeout with its random draw. \<open>run\<close> applies a list of them in order.
\<close>

datatype event = Move string int | BotPlays string nat | TimesOut real

definition applyEvent :: "int \<Rightarrow> game \<Rightarrow> event \<Rightarrow> game" where
  "applyEvent now g ev =
     (case ev of
        Move sock position \<Rightarrow>
          (case fst (onMakeMove now sock None position (Some g)) of Some g' \<Rightarrow> g' | None \<Rightarrow> g)
      | BotPlays botId m \<Rightarrow> fst (botMoveFires now botId m g)
      | TimesOut r \<Rightarrow> fst (handleTimeout now r g))"

definition run :: "int \<Rightarrow> game \<Rightarrow> event list \<Rightarrow> game" where
  "run now g evs = foldl (applyEvent now) g evs"

text \<open>
  A turn of the bot: \<^verbatim>\<open>makeBotMove\<close> asks the bot for its move on the board as it stands
  and its timer then plays it. The state is the match, the bot registered for it and the
  next index of the random sequence.
\<close>

definition botTurn ::
  "int \<Rightarrow> (nat \<Rightarrow> real) \<Rightarrow> string \<Rightarrow> game \<times> botPlayer option \<times> nat \<Rightarrow> game \<times> botPlayer option \<times> nat" where
  "botTurn now rnd botId x =
     (case x of (g, bopt, k) \<Rightarrow>
        (case makeBotMove rnd k (Some g) bopt of
           (None, bopt', k') \<Rightarrow> (g, bopt', k')
         | (Some m, bopt', k') \<Rightarrow> (fst (botMoveFires now botId m g), bopt', k')))"

text \<open>A turn of the human: the socket handler's move, the bot and the sequence untouched.\<close>

definition humanTurn ::
  "int \<Rightarrow> string \<Rightarrow> int \<Rightarrow> game \<times> botPlayer option \<times> nat \<Rightarrow> game \<times> botPlayer option \<times> nat" where
  "humanTurn now sock position x =
     (case x of (g, bopt, k) \<Rightarrow> (applyEvent now g (Move sock position), bopt, k))"

section \<open>Example matches\<close>

text \<open>
  A match of a human \<^verbatim>\<open>h\<close> and a bot \<^verbatim>\<open>bot_1\<close> at 50 sats, started at time 1000 with the
  human to move (both coin flips drew 0).
\<close>

definition exampleMatch :: game where
  "exampleMatch =
     freshMatch 1000 ''g1'' 50 0 ''h'' (Some ''h@x'') False 0 ''bot_1'' (Some ''b@speed.app'') True"

text \<open>
  The same match one move before a drawn board: \<^verbatim>\<open>h\<close> is to play the ninth mark, in
  cell 8, and no line can be completed.
\<close>

definition almostDrawn :: game where
  "almostDrawn = run 2000 exampleMatch
     [Move ''h'' 0, BotPlays ''bot_1'' 1, Move ''h'' 2, BotPlays ''bot_1'' 4,
      Move ''h'' 3, BotPlays ''bot_1'' 5, Move ''h'' 7, BotPlays ''bot_1'' 6]"

text \<open>
  The same match after five moves: the bot holds cells 3 and 4, cell 5 is empty and the
  bot is to move.
\<close>

definition botToMove :: game where
  "botToMove = run 2000 exampleMatch
     [Move ''h'' 0, BotPlays ''bot_1'' 3, Move ''h'' 1, BotPlays ''bot_1'' 4, Move ''h'' 8]"

text \<open>
  The bot of the example match, built for the opponent's first game at 50 sats with all
  draws 0; and the match played with every draw 0 against a human who plays the cells 0,
  8, 6 and 3.
\<close>

definition exampleBot :: botPlayer where
  "exampleBot = fst (newBotPlayer 0 0 ''g1'' 50 (Some ''h@x'') emptyScripter)"

definition mustWinLoses :: "game \<times> botPlayer option \<times> nat" where
  "mustWinLoses =
     humanTurn 2000 ''h'' 3
       (botTurn 2000 (\<lambda>n. 0) ''bot_1''
          (humanTurn 2000 ''h'' 6
             (botTurn 2000 (\<lambda>n. 0) ''bot_1''
                (humanTurn 2000 ''h'' 8
                   (botTurn 2000 (\<lambda>n. 0) ''bot_1''
                      (humanTurn 2000 ''h'' 0 (exampleMatch, Some exampleBot, 0)))))))"

text \<open>
  The registries with one match \<^verbatim>\<open>g1\<close> at 50 sats in which \<^verbatim>\<open>h\<close> waits, and the registries
  after the bot spawn timer of \<^verbatim>\<open>h\<close> has fired (all draws 0).
\<close>

definition waitingWorld :: world where
  "waitingWorld =
     \<lparr>games = [(''g1'', snd (addPlayer 0 ''h'' (Some ''h@x'') False (newGame ''g1'' 50)))],
      activeBots = Map.empty, scripterMaps = emptyScripter\<rparr>"

definition botWorld :: world where
  "botWorld = botSpawnTimerFires 0 0 0 ''h'' (Some ''h@x'') ''bot_1'' ''b@speed.app'' waitingWorld"

text \<open>
  The registries before any payment. The registries after \<^verbatim>\<open>h\<close>, waiting alone in \<^verbatim>\<open>g1\<close>,
  has paid a second invoice of 50 sats; the registries after the bot spawn timer of its
  first payment has then fired (all draws 0); and the match \<^verbatim>\<open>g1\<close> of these registries
  when its countdown has ended at time 1000.
\<close>

definition emptyWorld :: world where
  "emptyWorld = \<lparr>games = [], activeBots = Map.empty, scripterMaps = emptyScripter\<rparr>"

definition paidTwice :: world where
  "paidTwice = paymentConfirmed 0 ''h'' (Some ''h@x'') 50 ''g2'' waitingWorld"

definition twoNoughts :: world where
  "twoNoughts = botSpawnTimerFires 0 0 0 ''h'' (Some ''h@x'') ''bot_1'' ''b@speed.app'' paidTwice"

definition twoNoughtsMatch :: game where
  "twoNoughtsMatch =
     (case map_of (games twoNoughts) ''g1'' of
        Some g \<Rightarrow> fst (countdownEnds 1000 g)
      | None \<Rightarrow> newGame ''g1'' 50)"

text \<open>
  That match played: the human takes cell 0, the bot registered for the match is asked
  for its move (every draw 0) and plays it, and the human takes cell 8.
\<close>

definition twoNoughtsPlay :: "game \<times> botPlayer option \<times> nat" where
  "twoNoughtsPlay =
     humanTurn 2000 ''h'' 8
       (botTurn 2000 (\<lambda>n. 0) ''bot_1''
          (humanTurn 2000 ''h'' 0 (twoNoughtsMatch, activeBots twoNoughts ''g1'', 0)))"

text \<open>The matches of the registries by id, each with its players in order: id, bot or not, symbol.\<close>

definition slots :: "world \<Rightarrow> (string \<times> (string \<times> bool \<times> mark) list) list" where
  "slots w = map (\<lambda>(i, g). (i, map (\<lambda>(pid, p). (pid, isBot p, symbol p)) (players g))) (games w)"

section \<open>Properties of the board evaluator\<close>

lemma firstLine_None: "firstLine b ls = None \<longleftrightarrow>
    \<not> (\<exists>(i, j, k) \<in> set ls. b ! i \<noteq> None \<and> b ! i = b ! j \<and> b ! i = b ! k)"
  by (induction ls) (auto split: option.splits if_splits)

lemma firstLine_mark: "firstLine b ls = Some (m, l) \<Longrightarrow>
    \<exists>i j k. (i, j, k) \<in> set ls \<and> l = [i, j, k] \<and> b ! i = Some m \<and> b ! j = Some m \<and> b ! k = Some m"
  by (induction ls) (auto split: option.splits if_splits)

lemma checkWinner_Winner_iff:
  "(\<exists>m l. checkWinner b = Winner m l) \<longleftrightarrow>
   (\<exists>(i, j, k) \<in> set lines. b ! i \<noteq> None \<and> b ! i = b ! j \<and> b ! i = b ! k)"
  using firstLine_None [of b lines]
  by (cases "firstLine b lines") (auto simp: checkWinner_def)

lemma checkWinner_Draw_iff:
  "checkWinner b = DrawV \<longleftrightarrow>
   (\<not> (\<exists>(i, j, k) \<in> set lines. b ! i \<noteq> None \<and> b ! i = b ! j \<and> b ! i = b ! k) \<and>
    list_all (\<lambda>c. c \<noteq> None) b)"
  using firstLine_None [of b lines]
  by (cases "firstLine b lines") (auto simp: checkWinner_def)

lemma checkWinner_Winner_line:
  "checkWinner b = Winner m l \<Longrightarrow>
   \<exists>i j k. (i, j, k) \<in> set lines \<and> l = [i, j, k] \<and>
           b ! i = Some m \<and> b ! j = Some m \<and> b ! k = Some m"
  using firstLine_mark [of b lines m l]
  by (auto simp: checkWinner_def split: option.splits if_splits)

text \<open>The evaluation in terms of the table \<open>lines\<close>.\<close>

lemma checkWinner_table:
  "length b = 9 \<Longrightarrow>
   \<not> ((\<exists>m l. checkWinner b = Winner m l) \<and> checkWinner b = DrawV) \<and>
   ((\<exists>m l. checkWinner b = Winner m l) \<longleftrightarrow>
      (\<exists>(i, j, k) \<in> set lines. \<exists>m. b ! i = Some m \<and> b ! j = Some m \<and> b ! k = Some m)) \<and>
   (checkWinner b = DrawV \<longleftrightarrow>
      (\<not> (\<exists>(i, j, k) \<in> set lines. \<exists>m. b ! i = Some m \<and> b ! j = Some m \<and> b ! k = Some m) \<and>
       (\<forall>i < 9. b ! i \<noteq> None))) \<and>
   (\<forall>m l. checkWinner b = Winner m l \<longrightarrow>
      (\<exists>(i, j, k) \<in> set lines. l = [i, j, k] \<and>
          b ! i = Some m \<and> b ! j = Some m \<and> b ! k = Some m))"
proof -
  assume len: "length b = 9"
  have same: "(\<exists>(i, j, k) \<in> set lines. \<exists>m. b ! i = Some m \<and> b ! j = Some m \<and> b ! k = Some m) \<longleftrightarrow>
              (\<exists>(i, j, k) \<in> set lines. b ! i \<noteq> None \<and> b ! i = b ! j \<and> b ! i = b ! k)"
    by (rule bex_cong [OF refl]) auto
  have full: "list_all (\<lambda>c. c \<noteq> None) b \<longleftrightarrow> (\<forall>i < 9. b ! i \<noteq> None)"
    using len by (simp add: list_all_length)
  have excl: "\<not> ((\<exists>m l. checkWinner b = Winner m l) \<and> checkWinner b = DrawV)"
    by auto
  have win: "(\<exists>m l. checkWinner b = Winner m l) \<longleftrightarrow>
      (\<exists>(i, j, k) \<in> set lines. \<exists>m. b ! i = Some m \<and> b ! j = Some m \<and> b ! k = Some m)"
    unfolding same by (rule checkWinner_Winner_iff)
  have draw: "checkWinner b = DrawV \<longleftrightarrow>
      (\<not> (\<exists>(i, j, k) \<in> set lines. \<exists>m. b ! i = Some m \<and> b ! j = Some m \<and> b ! k = Some m) \<and>
       (\<forall>i < 9. b ! i \<noteq> None))"
    unfolding same full [symmetric] by (rule checkWinner_Draw_iff)
  have line: "\<forall>m l. checkWinner b = Winner m l \<longrightarrow>
      (\<exists>(i, j, k) \<in> set lines. l = [i, j, k] \<and>
          b ! i = Some m \<and> b ! j = Some m \<and> b ! k = Some m)"
    using checkWinner_Winner_line [of b] by fastforce
  from excl win draw line show ?thesis by blast
qed

lemma lines_set:
  "set lines =
     {(0, 1, 2), (3, 4, 5), (6, 7, 8), (0, 3, 6), (1, 4, 7), (2, 5, 8), (0, 4, 8), (2, 4, 6)}"
  by (simp add: lines_def)

text \<open>
  Claim C6. The cells of the board are numbered row by row from 0, so the eight lines are
  the rows 0-1-2, 3-4-5, 6-7-8, the columns 0-3-6, 1-4-7, 2-5-8 and the diagonals 0-4-8,
  2-4-6. For every 9-cell board, \<^verbatim>\<open>checkWinner\<close> never reports a winner and a draw
  together; it reports a winner exactly when one of these eight lines holds three
  identical marks (the reported line is then one of the eight, filled with the reported
  mark); it reports a draw exactly when none of them holds three identical marks and no
  cell is empty.
\<close>

theorem checkWinner_evaluates:
  "length b = 9 \<Longrightarrow>
   \<not> ((\<exists>m l. checkWinner b = Winner m l) \<and> checkWinner b = DrawV) \<and>
   ((\<exists>m l. checkWinner b = Winner m l) \<longleftrightarrow>
      (\<exists>(i, j, k) \<in> {(0, 1, 2), (3, 4, 5), (6, 7, 8), (0, 3, 6), (1, 4, 7), (2, 5, 8),
                      (0, 4, 8), (2, 4, 6)}.
         \<exists>m. b ! i = Some m \<and> b ! j = Some m \<and> b ! k = Some m)) \<and>
   (checkWinner b = DrawV \<longleftrightarrow>
      (\<not> (\<exists>(i, j, k) \<in> {(0, 1, 2), (3, 4, 5), (6, 7, 8), (0, 3, 6), (1, 4, 7), (2, 5, 8),
                         (0, 4, 8), (2, 4, 6)}.
            \<exists>m. b ! i = Some m \<and> b ! j = Some m \<and> b ! k = Some m) \<and>
       (\<forall>i < 9. b ! i \<noteq> None))) \<and>
   (\<forall>m l. checkWinner b = Winner m l \<longrightarrow>
      (\<exists>(i, j, k) \<in> {(0, 1, 2), (3, 4, 5), (6, 7, 8), (0, 3, 6), (1, 4, 7), (2, 5, 8),
                      (0, 4, 8), (2, 4, 6)}.
         l = [i, j, k] \<and> b ! i = Some m \<and> b ! j = Some m \<and> b ! k = Some m))"
  using checkWinner_table [of b] unfolding lines_set .

text \<open>
  A board on which \<^verbatim>\<open>'X'\<close> fills the column 0-3-6, and a full board without a line.
\<close>

theorem checkWinner_evaluates_witness:
  "length [Some SymX, Some SymO, None, Some SymX, Some SymO, None, Some SymX, None, None] = 9 \<and>
   [Some SymX, Some SymO, None, Some SymX, Some SymO, None, Some SymX, None, None] ! 0 = Some SymX \<and>
   [Some SymX, Some SymO, None, Some SymX, Some SymO, None, Some SymX, None, None] ! 3 = Some SymX \<and>
   [Some SymX, Some SymO, None, Some SymX, Some SymO, None, Some SymX, None, None] ! 6 = Some SymX \<and>
   checkWinner [Some SymX, Some SymO, None, Some SymX, Some SymO, None, Some SymX, None, None] =
     Winner SymX [0, 3, 6] \<and>
   length [Some SymX, Some SymO, Some SymX, Some SymX, Some SymO, Some SymO,
           Some SymO, Some SymX, Some SymX] = 9 \<and>
   checkWinner [Some SymX, Some SymO, Some SymX, Some SymX, Some SymO, Some SymO,
                Some SymO, Some SymX, Some SymX] = DrawV \<and>
   \<not> (\<exists>m l. checkWinner [Some SymX, Some SymO, Some SymX, Some SymX, Some SymO, Some SymO,
                           Some SymO, Some SymX, Some SymX] = Winner m l)"
  using checkWinner_evaluates [of "[Some SymX, Some SymO, None, Some SymX, Some SymO, None,
                                    Some SymX, None, None]"]
    checkWinner_evaluates [of "[Some SymX, Some SymO, Some SymX, Some SymX, Some SymO,
                                Some SymO, Some SymO, Some SymX, Some SymX]"]
  by (simp add: checkWinner_def lines_def)

section \<open>Rejected moves\<close>

lemma makeMove_Rejected_iff:
  "(\<exists>x. fst (makeMove now sid position g) = Rejected x) \<longleftrightarrow>
   (status g \<noteq> Playing \<or> turn g \<noteq> Some sid \<or> position < 0 \<or> 8 < position \<or>
    \<not> (nat position < length (board g) \<and> board g ! nat position = None))"
  by (auto simp: makeMove_def Let_def split: verdict.splits prod.splits)

lemma makeMove_Rejected_same:
  "fst (makeMove now sid position g) = Rejected x \<Longrightarrow>
   makeMove now sid position g = (Rejected x, g, []) \<and>
   x = (if status g \<noteq> Playing then not_playing
        else if turn g \<noteq> Some sid then not_your_turn
        else if position < 0 \<or> 8 < position then bad_pos
        else occupied)"
  by (auto simp: makeMove_def Let_def split: verdict.splits prod.splits if_splits)

lemma onMakeMove_Rejected:
  assumes "findPlayerIdInGame sock sockAddr g = Some sid"
    and "fst (makeMove now sid position g) = Rejected x"
  shows "\<exists>m. onMakeMove now sock sockAddr position (Some g) =
              (Some g, [Emit (ToSocket sock) ''error'' m])"
  using assms makeMove_Rejected_same [OF assms(2)]
  by (auto simp: onMakeMove_def)

text \<open>
  Claim C4. \<^verbatim>\<open>makeMove(actorSlot, cellIndex)\<close> on a match with its 9-cell board rejects
  exactly when the match is not \<^verbatim>\<open>playing\<close>, or the acting slot does not hold the turn,
  or the index is outside 0..8, or the cell is occupied. A rejection returns the reason
  of the first of these that fails, leaves the whole match as it was and notifies
  nobody; the socket handler then sends one \<^verbatim>\<open>error\<close> event, to the acting socket, and
  leaves the match as it was.
\<close>

theorem makeMove_rejection:
  "length (board g) = 9 \<Longrightarrow>
   ((\<exists>x. fst (makeMove now sid position g) = Rejected x) \<longleftrightarrow>
      (status g \<noteq> Playing \<or> turn g \<noteq> Some sid \<or> position < 0 \<or> 8 < position \<or>
       board g ! nat position \<noteq> None)) \<and>
   (\<forall>x. fst (makeMove now sid position g) = Rejected x \<longrightarrow>
      makeMove now sid position g = (Rejected x, g, []) \<and>
      x = (if status g \<noteq> Playing then not_playing
           else if turn g \<noteq> Some sid then not_your_turn
           else if position < 0 \<or> 8 < position then bad_pos
           else occupied) \<and>
      (\<forall>sock sockAddr. findPlayerIdInGame sock sockAddr g = Some sid \<longrightarrow>
         (\<exists>m. onMakeMove now sock sockAddr position (Some g) =
                (Some g, [Emit (ToSocket sock) ''error'' m]))))"
proof -
  assume len: "length (board g) = 9"
  have "(\<exists>x. fst (makeMove now sid position g) = Rejected x) \<longleftrightarrow>
      (status g \<noteq> Playing \<or> turn g \<noteq> Some sid \<or> position < 0 \<or> 8 < position \<or>
       board g ! nat position \<noteq> None)"
    unfolding makeMove_Rejected_iff using len by auto
  moreover have "\<forall>x. fst (makeMove now sid position g) = Rejected x \<longrightarrow>
      makeMove now sid position g = (Rejected x, g, []) \<and>
      x = (if status g \<noteq> Playing then not_playing
           else if turn g \<noteq> Some sid then not_your_turn
           else if position < 0 \<or> 8 < position then bad_pos
           else occupied) \<and>
      (\<forall>sock sockAddr. findPlayerIdInGame sock sockAddr g = Some sid \<longrightarrow>
         (\<exists>m. onMakeMove now sock sockAddr position (Some g) =
                (Some g, [Emit (ToSocket sock) ''error'' m])))"
    using makeMove_Rejected_same onMakeMove_Rejected by blast
  ultimately show ?thesis by blast
qed

lemma exampleMatch_eq:
  "exampleMatch =
     \<lparr>gid = ''g1'', wager = 50,
      players =
        [(''h'', \<lparr>socketId = ''h'', lightningAddress = Some ''h@x'', isBot = False,
                  symbol = SymX, ready = False\<rparr>),
         (''bot_1'', \<lparr>socketId = ''bot_1'', lightningAddress = Some ''b@speed.app'',
                      isBot = True, symbol = SymO, ready = False\<rparr>)],
      board = [None, None, None, None, None, None, None, None, None],
      turn = Some ''h'', status = Playing, winner = NoWinner, winLine = [],
      turnTimer = Some 8000, isFirstTurn = True, moveCount = 0,
      startingPlayer = Some ''h'', turnDeadlineAt = Some 9000\<rparr>"
  by (simp add: exampleMatch_def freshMatch_def countdownEnds_def startTurnTimer_def
      addPlayer_def newGame_def emptyBoard_def clearTurnTimer_def Let_def numeral_eq_Suc)

theorem makeMove_rejection_witness:
  "length (board exampleMatch) = 9 \<and>
   makeMove 2000 ''bot_1'' 0 exampleMatch = (Rejected not_your_turn, exampleMatch, []) \<and>
   (\<exists>m. onMakeMove 2000 ''bot_1'' None 0 (Some exampleMatch) =
          (Some exampleMatch, [Emit (ToSocket ''bot_1'') ''error'' m]))"
  using makeMove_rejection [of exampleMatch 2000 "''bot_1''" 0]
  by (simp add: exampleMatch_eq makeMove_def findPlayerIdInGame_def)

section \<open>The invariant of reachable matches\<close>

lemma marks_update_same:
  "i < length b \<Longrightarrow> b ! i = None \<Longrightarrow> marks m (b[i := Some m]) = Suc (marks m b)"
  unfolding marks_def
proof (induction b arbitrary: i)
  case Nil then show ?case by simp
next
  case (Cons c b) then show ?case by (cases i) auto
qed

lemma marks_update_other:
  "b ! i = None \<Longrightarrow> m' \<noteq> m \<Longrightarrow> marks m' (b[i := Some m]) = marks m' b"
  unfolding marks_def
proof (induction b arbitrary: i)
  case Nil then show ?case by simp
next
  case (Cons c b) then show ?case by (cases i) auto
qed

lemma checkWinner_emptyBoard: "checkWinner emptyBoard = Ongoing"
  by (simp add: checkWinner_def emptyBoard_def lines_def numeral_eq_Suc)

lemma marks_emptyBoard: "marks m emptyBoard = 0"
  by (simp add: marks_def emptyBoard_def)

lemma length_emptyBoard: "length emptyBoard = 9"
  by (simp add: emptyBoard_def)

text \<open>What an accepted move requires.\<close>

lemma makeMove_accepted_pre:
  assumes "\<And>y. fst (makeMove now sid pos g) \<noteq> Rejected y"
  shows "status g = Playing \<and> turn g = Some sid \<and> 0 \<le> pos \<and> pos \<le> 8 \<and>
         nat pos < length (board g) \<and> board g ! nat pos = None"
  using assms makeMove_Rejected_iff [of now sid pos g] by auto

text \<open>The three outcomes of an accepted move, written out.\<close>

lemma makeMove_accepted:
  assumes "status g = Playing" "turn g = Some sid" "0 \<le> pos" "pos \<le> 8"
    "nat pos < length (board g)" "board g ! nat pos = None" "currentPlayerSymbol g = Some m"
  shows "makeMove now sid pos g =
     (let g1 = placed g pos m
      in case checkWinner (board g1) of
              DrawV \<Rightarrow>
                (let otherPlayer = find (\<lambda>i. Some i \<noteq> startingPlayer g1) (playerIds g1)
                 in (OkDraw otherPlayer,
                     (clearTurnTimer (g1\<lparr>status := Finished\<rparr>))
                       \<lparr>winner := WinnerDraw, startingPlayer := otherPlayer\<rparr>,
                     []))
            | Winner m' l \<Rightarrow>
                (let winnerId = map_option fst (find (\<lambda>(i, p). symbol p = m') (players g1))
                 in (OkWinner winnerId l,
                     (clearTurnTimer (g1\<lparr>status := Finished\<rparr>))
                       \<lparr>winner := WinnerId winnerId, winLine := l\<rparr>,
                     []))
            | Ongoing \<Rightarrow>
                (let g2 = g1\<lparr>turn := find (\<lambda>i. Some i \<noteq> turn g1) (playerIds g1)\<rparr>;
                     (g3, es) = startTurnTimer now g2
                 in (OkNext, g3, es)))"
  using assms by (simp add: makeMove_def placed_def Let_def)

lemma inv4_mover:
  assumes inv: "inv4 p1 P1 p2 P2 g" and st: "status g = Playing" and t: "turn g = Some sid"
  shows "(sid = p1 \<or> sid = p2) \<and> currentPlayerSymbol g = Some (slotMark p1 sid)"
proof -
  from inv st t have "sid = p1 \<or> sid = p2"
    by (auto simp: inv4_def opponent_def split: if_splits)
  moreover from inv have "players g = [(p1, P1), (p2, P2)]" "p1 \<noteq> p2" "symbol P1 = SymX" "symbol P2 = SymO"
    by (simp_all add: inv4_def)
  ultimately show ?thesis using t
    by (auto simp: currentPlayerSymbol_def slotMark_def)
qed

lemma otherMark_neq: "otherMark m \<noteq> m"
  by (cases m) (simp_all add: otherMark_def)

lemma otherMark_slotMark:
  "p1 \<noteq> p2 \<Longrightarrow> s = p1 \<or> s = p2 \<Longrightarrow> slotMark p1 (opponent p1 p2 s) = otherMark (slotMark p1 s)"
  by (auto simp: slotMark_def opponent_def otherMark_def)

lemma inv4_placed:
  assumes inv: "inv4 p1 P1 p2 P2 g" and st: "status g = Playing" and t: "turn g = Some sid"
    and rng: "nat pos < length (board g)" and emp: "board g ! nat pos = None"
  shows "\<exists>s. startingPlayer g = Some s \<and> (s = p1 \<or> s = p2) \<and>
             marks (slotMark p1 s) (board (placed g pos (slotMark p1 sid))) = (moveCount g + 2) div 2 \<and>
             marks (otherMark (slotMark p1 s)) (board (placed g pos (slotMark p1 sid))) = (moveCount g + 1) div 2 \<and>
             sid = (if even (moveCount g) then s else opponent p1 p2 s)"
proof -
  from inv obtain s where s: "startingPlayer g = Some s" "s = p1 \<or> s = p2"
      "marks (slotMark p1 s) (board g) = (moveCount g + 1) div 2"
      "marks (otherMark (slotMark p1 s)) (board g) = moveCount g div 2"
      "status g = Playing \<longrightarrow> turn g = Some (if even (moveCount g) then s else opponent p1 p2 s)"
    unfolding inv4_def by blast
  from inv have ne: "p1 \<noteq> p2" by (simp add: inv4_def)
  from s(5) st t have sid: "sid = (if even (moveCount g) then s else opponent p1 p2 s)" by simp
  show ?thesis
  proof (cases "even (moveCount g)")
    case True
    with sid have [simp]: "sid = s" by simp
    have "marks (slotMark p1 s) ((board g)[nat pos := Some (slotMark p1 s)]) = Suc ((moveCount g + 1) div 2)"
      using marks_update_same [OF rng emp] s(3) by simp
    moreover have "marks (otherMark (slotMark p1 s)) ((board g)[nat pos := Some (slotMark p1 s)]) = moveCount g div 2"
      using marks_update_other [OF emp otherMark_neq] s(4) by simp
    ultimately show ?thesis using s(1,2) True
      by (auto simp: placed_def elim!: evenE)
  next
    case False
    with sid have sid': "sid = opponent p1 p2 s" by simp
    have m: "slotMark p1 sid = otherMark (slotMark p1 s)"
      unfolding sid' by (rule otherMark_slotMark [OF ne s(2)])
    have "marks (otherMark (slotMark p1 s)) ((board g)[nat pos := Some (otherMark (slotMark p1 s))]) = Suc (moveCount g div 2)"
      using marks_update_same [OF rng emp] s(4) by simp
    moreover have "marks (slotMark p1 s) ((board g)[nat pos := Some (otherMark (slotMark p1 s))]) = (moveCount g + 1) div 2"
      using marks_update_other [OF emp otherMark_neq [symmetric]] s(3) by simp
    ultimately show ?thesis using s(1,2) False sid' m
      by (auto simp: placed_def elim!: oddE)
  qed
qed

lemma opponent_opponent: "p1 \<noteq> p2 \<Longrightarrow> s = p1 \<or> s = p2 \<Longrightarrow> opponent p1 p2 (opponent p1 p2 s) = s"
  by (auto simp: opponent_def)

lemma find_other:
  "p1 \<noteq> p2 \<Longrightarrow> s = p1 \<or> s = p2 \<Longrightarrow>
   find (\<lambda>i. Some i \<noteq> Some s) [p1, p2] = Some (opponent p1 p2 s)"
  by (auto simp: opponent_def)

lemma inv4_intro:
  assumes "players g = [(p1, P1), (p2, P2)]" "p1 \<noteq> p2" "p1 \<noteq> []" "p2 \<noteq> []"
    "symbol P1 = SymX" "symbol P2 = SymO" "length (board g) = 9"
    "status g = Playing \<or> status g = Finished"
    "status g = Playing \<Longrightarrow> checkWinner (board g) = Ongoing"
    "startingPlayer g = Some s" "s = p1 \<or> s = p2"
    "marks (slotMark p1 s) (board g) = (moveCount g + 1) div 2"
    "marks (otherMark (slotMark p1 s)) (board g) = moveCount g div 2"
    "status g = Playing \<Longrightarrow> turn g = Some (if even (moveCount g) then s else opponent p1 p2 s)"
  shows "inv4 p1 P1 p2 P2 g"
  unfolding inv4_def using assms by blast

lemma inv4_basic:
  assumes "inv4 p1 P1 p2 P2 g"
  shows "players g = [(p1, P1), (p2, P2)]" "p1 \<noteq> p2" "p1 \<noteq> []" "p2 \<noteq> []"
    "symbol P1 = SymX" "symbol P2 = SymO" "length (board g) = 9"
    "status g = Playing \<or> status g = Finished"
    "status g = Playing \<Longrightarrow> checkWinner (board g) = Ongoing"
  using assms unfolding inv4_def by blast+

lemma inv4_accepted_shape:
  assumes inv: "inv4 p1 P1 p2 P2 g" and acc: "\<And>y. fst (makeMove now sid pos g) \<noteq> Rejected y"
  shows "status g = Playing \<and> turn g = Some sid \<and> 0 \<le> pos \<and> pos \<le> 8 \<and>
         nat pos < length (board g) \<and> board g ! nat pos = None \<and> (sid = p1 \<or> sid = p2) \<and>
         currentPlayerSymbol g = Some (slotMark p1 sid)"
  using makeMove_accepted_pre [OF acc] inv4_mover [OF inv] by blast

lemma inv4_next:
  assumes inv: "inv4 p1 P1 p2 P2 g" and mv: "makeMove now sid pos g = (OkNext, g', es)"
  shows "inv4 p1 P1 p2 P2 g' \<and> status g' = Playing \<and>
         board g' = (board g)[nat pos := Some (slotMark p1 sid)] \<and>
         turn g' = Some (opponent p1 p2 sid) \<and>
         checkWinner ((board g)[nat pos := Some (slotMark p1 sid)]) = Ongoing"
proof -
  have acc: "\<And>y. fst (makeMove now sid pos g) \<noteq> Rejected y" using mv by simp
  from inv4_accepted_shape [OF inv acc]
  have pre: "status g = Playing" "turn g = Some sid" "0 \<le> pos" "pos \<le> 8"
    "nat pos < length (board g)" "board g ! nat pos = None"
    and sid: "sid = p1 \<or> sid = p2"
    and sym: "currentPlayerSymbol g = Some (slotMark p1 sid)" by blast+
  note b = inv4_basic [OF inv]
  let ?g1 = "placed g pos (slotMark p1 sid)"
  note shape = makeMove_accepted [OF pre sym, of now]
  from mv shape have on: "checkWinner (board ?g1) = Ongoing"
    by (cases "checkWinner (board ?g1)") (simp_all add: Let_def split: prod.splits)
  from mv shape on have g': "g' = fst (startTurnTimer now
        (?g1\<lparr>turn := find (\<lambda>i. Some i \<noteq> turn ?g1) (playerIds ?g1)\<rparr>))"
    by (simp add: Let_def split: prod.splits)
  have turn1: "find (\<lambda>i. Some i \<noteq> turn ?g1) (playerIds ?g1) = Some (opponent p1 p2 sid)"
    using find_other [OF b(2) sid] pre b(1) by (simp add: placed_def playerIds_def)
  from inv4_placed [OF inv pre(1,2,5,6)] obtain s where s: "startingPlayer g = Some s" "s = p1 \<or> s = p2"
     "marks (slotMark p1 s) (board ?g1) = (moveCount g + 2) div 2"
     "marks (otherMark (slotMark p1 s)) (board ?g1) = (moveCount g + 1) div 2"
     "sid = (if even (moveCount g) then s else opponent p1 p2 s)" by blast
  have fields: "players g' = players g" "board g' = board ?g1" "status g' = Playing"
     "startingPlayer g' = startingPlayer g" "moveCount g' = moveCount g + 1"
     "turn g' = Some (opponent p1 p2 sid)"
    unfolding g' turn1 using pre
    by (simp_all add: startTurnTimer_def clearTurnTimer_def Let_def placed_def)
  have "inv4 p1 P1 p2 P2 g'"
  proof (rule inv4_intro [where s = s])
    show "turn g' = Some (if even (moveCount g') then s else opponent p1 p2 s)"
      using s(5) opponent_opponent [OF b(2) s(2)] by (simp add: fields)
  qed (use b s on in \<open>simp_all add: fields placed_def\<close>)
  with fields on show ?thesis by (simp add: placed_def)
qed

lemma inv4_winner:
  assumes inv: "inv4 p1 P1 p2 P2 g" and mv: "makeMove now sid pos g = (OkWinner w l, g', es)"
  shows "inv4 p1 P1 p2 P2 g' \<and> status g' = Finished \<and>
         board g' = (board g)[nat pos := Some (slotMark p1 sid)] \<and>
         winner g' = WinnerId w \<and>
         (\<exists>m'. checkWinner ((board g)[nat pos := Some (slotMark p1 sid)]) = Winner m' l \<and>
               w = map_option fst (find (\<lambda>(i, p). symbol p = m') (players g)))"
proof -
  have acc: "\<And>y. fst (makeMove now sid pos g) \<noteq> Rejected y" using mv by simp
  from inv4_accepted_shape [OF inv acc]
  have pre: "status g = Playing" "turn g = Some sid" "0 \<le> pos" "pos \<le> 8"
    "nat pos < length (board g)" "board g ! nat pos = None"
    and sid: "sid = p1 \<or> sid = p2"
    and sym: "currentPlayerSymbol g = Some (slotMark p1 sid)" by blast+
  note b = inv4_basic [OF inv]
  let ?g1 = "placed g pos (slotMark p1 sid)"
  note shape = makeMove_accepted [OF pre sym, of now]
  have pl: "players ?g1 = players g" by (simp add: placed_def)
  have "\<exists>m'. checkWinner (board ?g1) = Winner m' l \<and>
             w = map_option fst (find (\<lambda>(i, p). symbol p = m') (players g)) \<and>
             g' = (clearTurnTimer (?g1\<lparr>status := Finished\<rparr>))
                       \<lparr>winner := WinnerId w, winLine := l\<rparr>"
  proof (cases "checkWinner (board ?g1)")
    case (Winner m' l')
    with mv shape show ?thesis unfolding pl [symmetric] by (auto simp: Let_def)
  next
    case DrawV
    with mv shape show ?thesis by (simp add: Let_def)
  next
    case Ongoing
    with mv shape show ?thesis by (simp add: Let_def split_beta)
  qed
  then obtain m' where win: "checkWinner (board ?g1) = Winner m' l"
             "w = map_option fst (find (\<lambda>(i, p). symbol p = m') (players g))"
    and g': "g' = (clearTurnTimer (?g1\<lparr>status := Finished\<rparr>))
                       \<lparr>winner := WinnerId w, winLine := l\<rparr>" by blast
  from inv4_placed [OF inv pre(1,2,5,6)] obtain s where s: "startingPlayer g = Some s" "s = p1 \<or> s = p2"
     "marks (slotMark p1 s) (board ?g1) = (moveCount g + 2) div 2"
     "marks (otherMark (slotMark p1 s)) (board ?g1) = (moveCount g + 1) div 2" by blast
  have fields: "players g' = players g" "board g' = board ?g1" "status g' = Finished"
     "startingPlayer g' = startingPlayer g" "moveCount g' = moveCount g + 1"
    unfolding g' by (simp_all add: clearTurnTimer_def placed_def)
  have "inv4 p1 P1 p2 P2 g'"
    by (rule inv4_intro [where s = s]) (use b s in \<open>simp_all add: fields placed_def\<close>)
  moreover have "winner g' = WinnerId w" unfolding g' by simp
  moreover have "board ?g1 = (board g)[nat pos := Some (slotMark p1 sid)]"
    by (simp add: placed_def)
  ultimately show ?thesis using fields(2,3) win by auto
qed

lemma inv4_gameEnd:
  assumes "inv4 p1 P1 p2 P2 g"
  shows "inv4 p1 P1 p2 P2 (fst (gameEnd w g))"
proof -
  note b = inv4_basic [OF assms]
  from assms obtain s where s: "startingPlayer g = Some s" "s = p1 \<or> s = p2"
      "marks (slotMark p1 s) (board g) = (moveCount g + 1) div 2"
      "marks (otherMark (slotMark p1 s)) (board g) = moveCount g div 2"
    unfolding inv4_def by blast
  let ?h = "fst (gameEnd w g)"
  have fields: "players ?h = players g" "board ?h = board g" "status ?h = Finished"
     "startingPlayer ?h = startingPlayer g" "moveCount ?h = moveCount g"
    by (simp_all add: gameEnd_def Let_def clearTurnTimer_def)
  show ?thesis
    by (rule inv4_intro [where s = s]) (use b s in \<open>simp_all add: fields\<close>)
qed

lemma inv4_draw:
  assumes inv: "inv4 p1 P1 p2 P2 g" and mv: "makeMove now sid pos g = (OkDraw n, g', es)"
  shows "inv4 p1 P1 p2 P2 (fst (handleDraw now' g')) \<and>
         startingPlayer (fst (handleDraw now' g')) = startingPlayer g \<and>
         turn (fst (handleDraw now' g')) = startingPlayer g \<and>
         board (fst (handleDraw now' g')) = emptyBoard \<and>
         moveCount (fst (handleDraw now' g')) = 0 \<and>
         status (fst (handleDraw now' g')) = Playing \<and>
         isFirstTurn (fst (handleDraw now' g')) \<and>
         turnDeadlineAt (fst (handleDraw now' g')) = Some (now' + 8000) \<and>
         checkWinner ((board g)[nat pos := Some (slotMark p1 sid)]) = DrawV"
proof -
  have acc: "\<And>y. fst (makeMove now sid pos g) \<noteq> Rejected y" using mv by simp
  from inv4_accepted_shape [OF inv acc]
  have pre: "status g = Playing" "turn g = Some sid" "0 \<le> pos" "pos \<le> 8"
    "nat pos < length (board g)" "board g ! nat pos = None"
    and sid: "sid = p1 \<or> sid = p2"
    and sym: "currentPlayerSymbol g = Some (slotMark p1 sid)" by blast+
  note b = inv4_basic [OF inv]
  let ?g1 = "placed g pos (slotMark p1 sid)"
  note shape = makeMove_accepted [OF pre sym, of now]
  have "checkWinner (board ?g1) = DrawV \<and>
        g' = (clearTurnTimer (?g1\<lparr>status := Finished\<rparr>))
       \<lparr>winner := WinnerDraw,
        startingPlayer := find (\<lambda>i. Some i \<noteq> startingPlayer ?g1) (playerIds ?g1)\<rparr>"
  proof (cases "checkWinner (board ?g1)")
    case (Winner m' l')
    with mv shape show ?thesis by (simp add: Let_def)
  next
    case DrawV
    with mv shape show ?thesis by (auto simp: Let_def)
  next
    case Ongoing
    with mv shape show ?thesis by (simp add: Let_def split_beta)
  qed
  then have dr: "checkWinner (board ?g1) = DrawV"
    and g': "g' = (clearTurnTimer (?g1\<lparr>status := Finished\<rparr>))
       \<lparr>winner := WinnerDraw,
        startingPlayer := find (\<lambda>i. Some i \<noteq> startingPlayer ?g1) (playerIds ?g1)\<rparr>"
    by blast+
  from inv obtain s where s: "startingPlayer g = Some s" "s = p1 \<or> s = p2"
    unfolding inv4_def by blast
  have o: "opponent p1 p2 s = p1 \<or> opponent p1 p2 s = p2" by (simp add: opponent_def)
  have st1: "find (\<lambda>i. Some i \<noteq> startingPlayer ?g1) (playerIds ?g1) = Some (opponent p1 p2 s)"
    using find_other [OF b(2) s(2)] s(1) b(1) by (simp add: placed_def playerIds_def)
  have st2: "find (\<lambda>i. Some i \<noteq> startingPlayer g') (playerIds g') = Some s"
    unfolding g' st1 using find_other [OF b(2) o] opponent_opponent [OF b(2) s(2)] b(1)
    by (simp add: placed_def playerIds_def clearTurnTimer_def)
  have tr: "truthy (Some s)" using s(2) b(3,4) by (auto simp: truthy_def)
  let ?h = "fst (handleDraw now' g')"
  have fields: "players ?h = players g" "board ?h = emptyBoard" "status ?h = Playing"
     "startingPlayer ?h = Some s" "moveCount ?h = 0" "turn ?h = Some s"
     "isFirstTurn ?h" "turnDeadlineAt ?h = Some (now' + 8000)"
    unfolding handleDraw_def st2 using tr
    by (simp_all add: Let_def startTurnTimer_def clearTurnTimer_def split: prod.splits)
       (simp_all add: g' placed_def clearTurnTimer_def)
  have "inv4 p1 P1 p2 P2 ?h"
    by (rule inv4_intro [where s = s])
       (use b s in \<open>simp_all add: fields checkWinner_emptyBoard marks_emptyBoard length_emptyBoard\<close>)
  with fields s(1) dr show ?thesis by (simp add: placed_def)
qed

lemma inv4_fresh:
  assumes "p1 \<noteq> p2" "p1 \<noteq> []" "p2 \<noteq> []"
  shows "\<exists>P1 P2. inv4 p1 P1 p2 P2 (freshMatch now i bet r1 p1 a1 b1 r2 p2 a2 b2)"
proof -
  let ?P1 = "\<lparr>socketId = p1, lightningAddress = a1, isBot = b1, symbol = SymX, ready = False\<rparr>"
  let ?P2 = "\<lparr>socketId = p2, lightningAddress = a2, isBot = b2, symbol = SymO, ready = False\<rparr>"
  let ?g = "freshMatch now i bet r1 p1 a1 b1 r2 p2 a2 b2"
  have fields: "players ?g = [(p1, ?P1), (p2, ?P2)]" "board ?g = emptyBoard" "status ?g = Playing"
     "moveCount ?g = 0" "turn ?g = startingPlayer ?g"
     "startingPlayer ?g = Some (if r2 < 1 / 2 then p1 else p2)"
    using assms
    by (simp_all add: freshMatch_def countdownEnds_def startTurnTimer_def addPlayer_def newGame_def
      clearTurnTimer_def Let_def)
  have "inv4 p1 ?P1 p2 ?P2 ?g"
    by (rule inv4_intro [where s = "if r2 < 1 / 2 then p1 else p2"])
       (use assms in \<open>simp_all add: fields checkWinner_emptyBoard marks_emptyBoard length_emptyBoard\<close>)
  then show ?thesis by blast
qed

lemma inv4_settled:
  assumes inv: "inv4 p1 P1 p2 P2 g" and mv: "makeMove now sid pos g = (res, g1, es)"
  shows "(case res of
            Rejected x \<Rightarrow> g1 = g
          | OkNext \<Rightarrow> inv4 p1 P1 p2 P2 g1
          | OkWinner w l \<Rightarrow> inv4 p1 P1 p2 P2 g1 \<and> inv4 p1 P1 p2 P2 (fst (gameEnd w g1))
          | OkDraw n \<Rightarrow> inv4 p1 P1 p2 P2 (fst (handleDraw now' g1)))"
proof (cases res)
  case (Rejected x)
  with mv makeMove_Rejected_same [of now sid pos g x] show ?thesis by simp
next
  case (OkDraw n)
  with inv4_draw [OF inv, of now sid pos n g1 es now'] mv show ?thesis by simp
next
  case (OkWinner w l)
  with inv4_winner [OF inv, of now sid pos w l g1 es] mv inv4_gameEnd show ?thesis by simp
next
  case OkNext
  with inv4_next [OF inv, of now sid pos g1 es] mv show ?thesis by simp
qed

lemma inv4_onMakeMove:
  assumes inv: "inv4 p1 P1 p2 P2 g"
    and h: "fst (onMakeMove now sock sockAddr pos (Some g)) = Some g'"
  shows "inv4 p1 P1 p2 P2 g'"
proof (cases "findPlayerIdInGame sock sockAddr g")
  case None
  with h inv show ?thesis by (simp add: onMakeMove_def)
next
  case (Some pid)
  show ?thesis
  proof (cases "pid = [] \<or> turn g \<noteq> Some pid")
    case True
    with h inv Some show ?thesis by (auto simp: onMakeMove_def)
  next
    case False
    obtain res g1 es where mv: "makeMove now pid pos g = (res, g1, es)"
      by (cases "makeMove now pid pos g") auto
    from inv4_settled [OF inv mv, of now] h Some False mv inv show ?thesis
      by (cases res) (auto simp: onMakeMove_def Let_def split_beta split: if_splits)
  qed
qed

lemma inv4_botMoveFires:
  assumes inv: "inv4 p1 P1 p2 P2 g"
  shows "inv4 p1 P1 p2 P2 (fst (botMoveFires now botId m g))"
proof (cases "status g \<noteq> Playing \<or> turn g \<noteq> Some botId")
  case True
  with inv show ?thesis by (auto simp: botMoveFires_def)
next
  case False
  obtain res g1 es where mv: "makeMove now botId (int m) g = (res, g1, es)"
    by (cases "makeMove now botId (int m) g") auto
  from inv4_settled [OF inv mv, of now] False mv inv show ?thesis
    by (cases res) (auto simp: botMoveFires_def Let_def split_beta split: if_splits)
qed

lemma inv4_handleTimeout:
  assumes inv: "inv4 p1 P1 p2 P2 g"
  shows "inv4 p1 P1 p2 P2 (fst (handleTimeout now r g))"
proof (cases "status g \<noteq> Playing")
  case True
  with inv show ?thesis by (simp add: handleTimeout_def)
next
  case playing: False
  show ?thesis
  proof (cases "playerIsBot g (turn g)")
    case False
    with playing inv4_gameEnd [OF inv] show ?thesis
      by (simp add: handleTimeout_def Let_def split_beta)
  next
    case True
    then obtain t where t: "turn g = Some t"
      by (cases "turn g") (auto simp: playerIsBot_def)
    show ?thesis
    proof (cases "length (available (board g)) > 0")
      case False
      with playing True t inv show ?thesis by (simp add: handleTimeout_def Let_def)
    next
      case av: True
      let ?mv = "available (board g) ! randomIndex r (length (available (board g)))"
      obtain res g1 es where mv: "makeMove now t (int ?mv) g = (res, g1, es)"
        by (cases "makeMove now t (int ?mv) g") auto
      from inv4_settled [OF inv mv, of now] playing True t av mv inv show ?thesis
        by (cases res) (auto simp: handleTimeout_def Let_def split_beta split: if_splits)
    qed
  qed
qed

lemma reachable_matchInv: "reachable g \<Longrightarrow> matchInv g"
proof (induction rule: reachable.induct)
  case (fresh p1 p2 now i bet r1 a1 b1 r2 a2 b2)
  then show ?case unfolding matchInv_def using inv4_fresh by blast
next
  case (move g now sock sockAddr position g')
  then show ?case unfolding matchInv_def using inv4_onMakeMove by blast
next
  case (botMove g now botId m)
  then show ?case unfolding matchInv_def using inv4_botMoveFires by blast
next
  case (timeout g r now)
  then show ?case unfolding matchInv_def using inv4_handleTimeout by blast
qed

lemma reachable_applyEvent:
  assumes "reachable g" "case ev of TimesOut r \<Rightarrow> 0 \<le> r \<and> r < 1 | _ \<Rightarrow> True"
  shows "reachable (applyEvent now g ev)"
proof (cases ev)
  case (Move sock position)
  show ?thesis
  proof (cases "fst (onMakeMove now sock None position (Some g))")
    case None
    with Move assms(1) show ?thesis by (simp add: applyEvent_def)
  next
    case (Some g')
    with Move reachable.move [OF assms(1) Some] show ?thesis by (simp add: applyEvent_def)
  qed
next
  case (BotPlays botId m)
  with reachable.botMove [OF assms(1)] show ?thesis by (simp add: applyEvent_def)
next
  case (TimesOut r)
  with assms(2) reachable.timeout [OF assms(1), of r] show ?thesis by (simp add: applyEvent_def)
qed

lemma reachable_run:
  assumes "reachable g" "list_all (\<lambda>ev. case ev of TimesOut r \<Rightarrow> 0 \<le> r \<and> r < 1 | _ \<Rightarrow> True) evs"
  shows "reachable (run now g evs)"
  using assms unfolding run_def
  by (induction evs arbitrary: g) (simp_all add: reachable_applyEvent)

lemma reachable_exampleMatch: "reachable exampleMatch"
  unfolding exampleMatch_def by (rule reachable.fresh) simp_all

lemma reachable_almostDrawn: "reachable almostDrawn"
  unfolding almostDrawn_def by (rule reachable_run [OF reachable_exampleMatch]) simp

lemmas play_defs = applyEvent_def run_def onMakeMove_def botMoveFires_def makeMove_def
  findPlayerIdInGame_def currentPlayerSymbol_def checkWinner_def lines_def playerIds_def
  startTurnTimer_def clearTurnTimer_def playerIsBot_def Let_def

lemma almostDrawn_eq:
  "almostDrawn =
     \<lparr>gid = ''g1'', wager = 50,
      players =
        [(''h'', \<lparr>socketId = ''h'', lightningAddress = Some ''h@x'', isBot = False,
                  symbol = SymX, ready = False\<rparr>),
         (''bot_1'', \<lparr>socketId = ''bot_1'', lightningAddress = Some ''b@speed.app'',
                      isBot = True, symbol = SymO, ready = False\<rparr>)],
      board = [Some SymX, Some SymO, Some SymX, Some SymX, Some SymO, Some SymO,
               Some SymO, Some SymX, None],
      turn = Some ''h'', status = Playing, winner = NoWinner, winLine = [],
      turnTimer = Some 5000, isFirstTurn = False, moveCount = 8,
      startingPlayer = Some ''h'', turnDeadlineAt = Some 7000\<rparr>"
  unfolding almostDrawn_def exampleMatch_eq
  by (simp add: play_defs)

lemma symbolOf_slot:
  assumes "inv4 p1 P1 p2 P2 g" "s = p1 \<or> s = p2"
  shows "symbolOf g (Some s) = Some (slotMark p1 s)"
  using assms inv4_basic [OF assms(1)] by (auto simp: symbolOf_def slotMark_def)

lemma inv4_board_after:
  assumes inv: "inv4 p1 P1 p2 P2 g" and acc: "\<And>y. fst (makeMove now sid pos g) \<noteq> Rejected y"
  shows "board (fst (snd (makeMove now sid pos g))) = (board g)[nat pos := Some (slotMark p1 sid)]"
proof -
  from inv4_accepted_shape [OF inv acc]
  have pre: "status g = Playing" "turn g = Some sid" "0 \<le> pos" "pos \<le> 8"
    "nat pos < length (board g)" "board g ! nat pos = None"
    and sym: "currentPlayerSymbol g = Some (slotMark p1 sid)" by blast+
  show ?thesis
    unfolding makeMove_accepted [OF pre sym, of now]
    by (cases "checkWinner (board (placed g pos (slotMark p1 sid)))")
       (simp_all add: Let_def split_beta placed_def clearTurnTimer_def startTurnTimer_def)
qed

text \<open>
  Claim C7. In every match reached from a fresh match by moves, bot moves, timeouts and
  the restarts after a draw: the board has nine cells, each empty or holding \<^verbatim>\<open>'X'\<close> or
  \<^verbatim>\<open>'O'\<close>; the mark of the round's starting player is on the board as often as the other
  mark or once more, the two together as often as the move counter says; while the match
  is \<^verbatim>\<open>playing\<close>, the starting player holds the turn exactly after an even number of
  moves; and a move accepted after an even number of moves (the \<open>(2n+1)\<close>-th mark of the
  round) is the starting player's and places the starting player's mark.
\<close>

theorem reachable_marks_alternate:
  "reachable g \<Longrightarrow>
   length (board g) = 9 \<and>
   (\<forall>c \<in> set (board g). c = None \<or> c = Some SymX \<or> c = Some SymO) \<and>
   (\<exists>s m. startingPlayer g = Some s \<and> symbolOf g (Some s) = Some m \<and>
      (marks m (board g) = marks (otherMark m) (board g) \<or>
       marks m (board g) = marks (otherMark m) (board g) + 1) \<and>
      marks m (board g) + marks (otherMark m) (board g) = moveCount g \<and>
      (status g = Playing \<longrightarrow> (turn g = Some s \<longleftrightarrow> even (moveCount g))) \<and>
      (\<forall>now sid pos. even (moveCount g) \<longrightarrow>
          (\<forall>x. fst (makeMove now sid pos g) \<noteq> Rejected x) \<longrightarrow>
          sid = s \<and>
          board (fst (snd (makeMove now sid pos g))) = (board g)[nat pos := Some m]))"
proof -
  assume "reachable g"
  then obtain p1 P1 p2 P2 where inv: "inv4 p1 P1 p2 P2 g"
    using reachable_matchInv unfolding matchInv_def by blast
  note b = inv4_basic [OF inv]
  from inv obtain s where s: "startingPlayer g = Some s" "s = p1 \<or> s = p2"
      "marks (slotMark p1 s) (board g) = (moveCount g + 1) div 2"
      "marks (otherMark (slotMark p1 s)) (board g) = moveCount g div 2"
      "status g = Playing \<longrightarrow> turn g = Some (if even (moveCount g) then s else opponent p1 p2 s)"
    unfolding inv4_def by blast
  let ?m = "slotMark p1 s"
  have cells: "\<forall>c \<in> set (board g). c = None \<or> c = Some SymX \<or> c = Some SymO"
  proof
    fix c :: cell show "c = None \<or> c = Some SymX \<or> c = Some SymO"
      by (cases c; cases "the c") auto
  qed
  have sym: "symbolOf g (Some s) = Some ?m" by (rule symbolOf_slot [OF inv s(2)])
  have diff: "marks ?m (board g) = marks (otherMark ?m) (board g) \<or>
       marks ?m (board g) = marks (otherMark ?m) (board g) + 1"
    unfolding s(3,4) by presburger
  have tot: "marks ?m (board g) + marks (otherMark ?m) (board g) = moveCount g"
    unfolding s(3,4) by presburger
  have opp: "opponent p1 p2 s \<noteq> s" using b(2) s(2) by (auto simp: opponent_def)
  have trn: "status g = Playing \<longrightarrow> (turn g = Some s \<longleftrightarrow> even (moveCount g))"
    using s(5) opp by auto
  have plc: "\<forall>now sid pos. even (moveCount g) \<longrightarrow>
          (\<forall>x. fst (makeMove now sid pos g) \<noteq> Rejected x) \<longrightarrow>
          sid = s \<and>
          board (fst (snd (makeMove now sid pos g))) = (board g)[nat pos := Some ?m]"
  proof (intro allI impI)
    fix now sid pos
    assume ev: "even (moveCount g)" and acc: "\<forall>x. fst (makeMove now sid pos g) \<noteq> Rejected x"
    from acc have acc': "\<And>y. fst (makeMove now sid pos g) \<noteq> Rejected y" by blast
    from inv4_accepted_shape [OF inv acc'] have "status g = Playing" "turn g = Some sid" by blast+
    with s(5) ev have "sid = s" by simp
    with inv4_board_after [OF inv acc']
    show "sid = s \<and> board (fst (snd (makeMove now sid pos g))) = (board g)[nat pos := Some ?m]"
      by simp
  qed
  from b(7) cells s(1) sym diff tot trn plc show ?thesis by blast
qed

theorem reachable_marks_alternate_witness:
  "reachable almostDrawn \<and> length (board almostDrawn) = 9 \<and>
   startingPlayer almostDrawn = Some ''h'' \<and> symbolOf almostDrawn (Some ''h'') = Some SymX \<and>
   marks SymX (board almostDrawn) = marks SymO (board almostDrawn) \<and>
   moveCount almostDrawn = 8 \<and> turn almostDrawn = Some ''h'' \<and>
   board (fst (snd (makeMove 3000 ''h'' 8 almostDrawn))) = (board almostDrawn)[8 := Some SymX]"
  using reachable_marks_alternate [OF reachable_almostDrawn] reachable_almostDrawn
  by (simp add: almostDrawn_eq symbolOf_def marks_def makeMove_def currentPlayerSymbol_def
      checkWinner_def lines_def playerIds_def clearTurnTimer_def Let_def)

section \<open>Turn timeouts\<close>


lemma randomIndex_less:
  assumes "0 \<le> r" "r < 1" "0 < n"
  shows "randomIndex r n < n"
proof -
  have "r * real n < real n" using assms by simp
  then have "\<lfloor>r * real n\<rfloor> < int n" by (simp add: floor_less_iff)
  moreover have "0 \<le> \<lfloor>r * real n\<rfloor>" using assms by simp
  ultimately show ?thesis unfolding randomIndex_def by linarith
qed

lemma available_iff: "i \<in> set (available b) \<longleftrightarrow> i < length b \<and> b ! i = None"
  by (auto simp: available_def)

lemma Ongoing_available:
  assumes "checkWinner b = Ongoing"
  shows "available b \<noteq> []"
proof -
  from assms have "\<not> list_all (\<lambda>c. c \<noteq> None) b"
    by (auto simp: checkWinner_def split: option.splits if_splits)
  then obtain i where "i < length b" "b ! i = None"
    by (auto simp: list_all_length)
  then have "i \<in> set (available b)" by (simp add: available_iff)
  then show ?thesis by auto
qed

lemma lines_less: "(i, j, k) \<in> set lines \<Longrightarrow> i < 9 \<and> j < 9 \<and> k < 9"
  by (auto simp: lines_def)

text \<open>A mark placed on a board without a line can only complete a line of its own.\<close>

lemma new_line_is_movers:
  assumes on: "checkWinner b = Ongoing" and pos: "pos < length b"
    and win: "checkWinner (b[pos := Some m]) = Winner m' l"
  shows "m' = m"
proof (rule ccontr)
  assume ne: "m' \<noteq> m"
  from checkWinner_Winner_line [OF win] obtain i j k where l: "(i, j, k) \<in> set lines"
    and c: "b[pos := Some m] ! i = Some m'" "b[pos := Some m] ! j = Some m'" "b[pos := Some m] ! k = Some m'"
    by blast
  from c ne pos have "i \<noteq> pos" "j \<noteq> pos" "k \<noteq> pos" by auto
  with c have "b ! i = Some m'" "b ! j = Some m'" "b ! k = Some m'" by simp_all
  with l have "\<exists>(i, j, k) \<in> set lines. b ! i \<noteq> None \<and> b ! i = b ! j \<and> b ! i = b ! k"
    by force
  then have "\<exists>m l. checkWinner b = Winner m l" by (simp only: checkWinner_Winner_iff)
  with on show False by simp
qed

lemma find_symbol:
  assumes "p1 \<noteq> p2" "symbol P1 = SymX" "symbol P2 = SymO" "t = p1 \<or> t = p2"
  shows "map_option fst (find (\<lambda>(i, p). symbol p = slotMark p1 t) [(p1, P1), (p2, P2)]) = Some t"
  using assms by (auto simp: slotMark_def)


lemma handleTimeout_human:
  assumes inv: "inv4 p1 P1 p2 P2 g" and st: "status g = Playing" and t: "turn g = Some t"
    and nb: "\<not> playerIsBot g (turn g)"
  shows "status (fst (handleTimeout now r g)) = Finished \<and>
         board (fst (handleTimeout now r g)) = board g \<and>
         moveCount (fst (handleTimeout now r g)) = moveCount g \<and>
         fst (snd (handleTimeout now r g)) = Some (Some (opponent p1 p2 t))"
proof -
  note b = inv4_basic [OF inv]
  from inv4_mover [OF inv st t] have tt: "t = p1 \<or> t = p2" by blast
  have f: "find (\<lambda>i. Some i \<noteq> turn g) (playerIds g) = Some (opponent p1 p2 t)"
    using find_other [OF b(2) tt] b(1) t by (simp add: playerIds_def)
  show ?thesis
    using st nb unfolding handleTimeout_def f
    by (simp add: Let_def split_beta gameEnd_def clearTurnTimer_def)
qed

lemma randomIndex_iff:
  assumes "0 \<le> r" "0 < n"
  shows "randomIndex r n = k \<longleftrightarrow> real k / real n \<le> r \<and> r < (real k + 1) / real n"
proof -
  have nn: "0 \<le> r * real n" using assms by simp
  have "randomIndex r n = k \<longleftrightarrow> \<lfloor>r * real n\<rfloor> = int k"
    unfolding randomIndex_def using nn by (auto simp: nat_eq_iff)
  also have "\<dots> \<longleftrightarrow> real k \<le> r * real n \<and> r * real n < real k + 1"
    by (auto simp: floor_eq_iff)
  also have "\<dots> \<longleftrightarrow> real k / real n \<le> r \<and> r < (real k + 1) / real n"
    using assms(2) by (simp add: pos_divide_le_eq pos_less_divide_eq)
  finally show ?thesis .
qed

lemma available_sorted: "sorted (available b) \<and> distinct (available b)"
  by (simp add: available_def sorted_wrt_filter)

lemma available_set: "set (available b) = {c. c < length b \<and> b ! c = None}"
  by (auto simp: available_def)

lemma forced_cell:
  assumes r: "0 \<le> r" "r < 1" and av: "available b \<noteq> []"
  shows "randomIndex r (length (available b)) < length (available b) \<and>
         (\<forall>k < length (available b).
            available b ! randomIndex r (length (available b)) = available b ! k \<longleftrightarrow>
            real k / real (length (available b)) \<le> r \<and>
            r < (real k + 1) / real (length (available b)))"
proof -
  let ?av = "available b"
  have n: "0 < length ?av" using av by simp
  have i: "randomIndex r (length ?av) < length ?av" by (rule randomIndex_less [OF r n])
  have d: "distinct ?av" by (simp add: available_sorted)
  have "\<forall>k < length ?av. ?av ! randomIndex r (length ?av) = ?av ! k \<longleftrightarrow>
          real k / real (length ?av) \<le> r \<and> r < (real k + 1) / real (length ?av)"
    using nth_eq_iff_index_eq [OF d i] randomIndex_iff [OF r(1) n] by simp
  with i show ?thesis by blast
qed

lemma handleTimeout_bot:
  assumes inv: "inv4 p1 P1 p2 P2 g" and st: "status g = Playing" and t: "turn g = Some t"
    and isb: "playerIsBot g (turn g)" and r: "0 \<le> r" "r < 1"
    and pd: "pos = available (board g) ! randomIndex r (length (available (board g)))"
  shows "available (board g) \<noteq> [] \<and> pos < 9 \<and> board g ! pos = None \<and>
          (case checkWinner ((board g)[pos := Some (slotMark p1 t)]) of
             Ongoing \<Rightarrow> status (fst (handleTimeout now r g)) = Playing \<and>
                        board (fst (handleTimeout now r g)) = (board g)[pos := Some (slotMark p1 t)] \<and>
                        turn (fst (handleTimeout now r g)) = Some (opponent p1 p2 t) \<and>
                        fst (snd (handleTimeout now r g)) = None
           | DrawV \<Rightarrow> status (fst (handleTimeout now r g)) = Playing \<and>
                      board (fst (handleTimeout now r g)) = emptyBoard \<and>
                      fst (snd (handleTimeout now r g)) = None
           | Winner m' l \<Rightarrow> m' = slotMark p1 t \<and>
                      status (fst (handleTimeout now r g)) = Finished \<and>
                      board (fst (handleTimeout now r g)) = (board g)[pos := Some (slotMark p1 t)] \<and>
                      fst (snd (handleTimeout now r g)) = Some (Some t))"
proof -
  note b = inv4_basic [OF inv]
  from inv4_mover [OF inv st t] have tt: "t = p1 \<or> t = p2" by blast
  let ?av = "available (board g)"
  let ?pos = "?av ! randomIndex r (length ?av)"
  have on: "checkWinner (board g) = Ongoing" using b(9) st by simp
  have av: "?av \<noteq> []" by (rule Ongoing_available [OF on])
  then have "randomIndex r (length ?av) < length ?av" using randomIndex_less [OF r] by simp
  then have "?pos \<in> set ?av" by simp
  then have pos: "?pos < length (board g)" "board g ! ?pos = None" by (simp_all add: available_iff)
  with b(7) have pos9: "?pos < 9" by simp
  obtain res g1 es where mv: "makeMove now t (int ?pos) g = (res, g1, es)"
    by (cases "makeMove now t (int ?pos) g") auto
  have nrej: "\<And>y. res \<noteq> Rejected y"
    using makeMove_Rejected_iff [of now t "int ?pos" g] mv st t pos pos9 by auto
  have sel: "(if playerIsBot g (turn g) then turn g else None) = Some t" using isb t by simp
  have avl: "0 < length ?av" using av by simp
  let ?b' = "(board g)[?pos := Some (slotMark p1 t)]"
  have "case checkWinner ?b' of
             Ongoing \<Rightarrow> status (fst (handleTimeout now r g)) = Playing \<and>
                        board (fst (handleTimeout now r g)) = ?b' \<and>
                        turn (fst (handleTimeout now r g)) = Some (opponent p1 p2 t) \<and>
                        fst (snd (handleTimeout now r g)) = None
           | DrawV \<Rightarrow> status (fst (handleTimeout now r g)) = Playing \<and>
                      board (fst (handleTimeout now r g)) = emptyBoard \<and>
                      fst (snd (handleTimeout now r g)) = None
           | Winner m' l \<Rightarrow> m' = slotMark p1 t \<and>
                      status (fst (handleTimeout now r g)) = Finished \<and>
                      board (fst (handleTimeout now r g)) = ?b' \<and>
                      fst (snd (handleTimeout now r g)) = Some (Some t)"
  proof (cases res)
    case (Rejected x)
    with nrej [of x] show ?thesis by blast
  next
    case OkNext
    from inv4_next [OF inv mv [unfolded OkNext]]
    have f: "status g1 = Playing" "board g1 = ?b'" "turn g1 = Some (opponent p1 p2 t)"
      "checkWinner ?b' = Ongoing" by simp_all
    have "handleTimeout now r g = (g1, None, es @ moveMadeEffects g1 @
              (if playerIsBot g1 (turn g1) then [CallMakeBotMove (gid g1) (turn g1)] else []))"
      unfolding handleTimeout_def sel using st avl mv OkNext by (simp add: Let_def)
    with f show ?thesis by simp
  next
    case (OkDraw n)
    from inv4_draw [OF inv mv [unfolded OkDraw], of now]
    have f: "status (fst (handleDraw now g1)) = Playing" "board (fst (handleDraw now g1)) = emptyBoard"
      "checkWinner ?b' = DrawV" by simp_all
    have "fst (handleTimeout now r g) = fst (handleDraw now g1) \<and>
          fst (snd (handleTimeout now r g)) = None"
      unfolding handleTimeout_def sel using st avl mv OkDraw by (simp add: Let_def split_beta)
    with f show ?thesis by simp
  next
    case (OkWinner w l)
    from inv4_winner [OF inv mv [unfolded OkWinner]] obtain m' where
      f: "status g1 = Finished" "board g1 = ?b'" "checkWinner ?b' = Winner m' l"
         "w = map_option fst (find (\<lambda>(i, p). symbol p = m') (players g))" by auto
    have m': "m' = slotMark p1 t" by (rule new_line_is_movers [OF on pos(1) f(3)])
    have w: "w = Some t" unfolding f(4) m' b(1) by (rule find_symbol [OF b(2,5,6) tt])
    have tr: "truthy w" using w tt b(3,4) by (auto simp: truthy_def)
    have "fst (handleTimeout now r g) = fst (gameEnd w g1) \<and>
          fst (snd (handleTimeout now r g)) = Some w"
      unfolding handleTimeout_def sel using st avl mv OkWinner tr by (simp add: Let_def split_beta)
    with f m' w show ?thesis by (simp add: gameEnd_def Let_def clearTurnTimer_def)
  qed
  with pos9 pos(2) av show ?thesis unfolding pd by blast
qed


lemma botToMove_eq:
  "botToMove =
     \<lparr>gid = ''g1'', wager = 50,
      players =
        [(''h'', \<lparr>socketId = ''h'', lightningAddress = Some ''h@x'', isBot = False,
                  symbol = SymX, ready = False\<rparr>),
         (''bot_1'', \<lparr>socketId = ''bot_1'', lightningAddress = Some ''b@speed.app'',
                      isBot = True, symbol = SymO, ready = False\<rparr>)],
      board = [Some SymX, Some SymX, None, Some SymO, Some SymO, None, None, None, Some SymX],
      turn = Some ''bot_1'', status = Playing, winner = NoWinner, winLine = [],
      turnTimer = Some 5000, isFirstTurn = False, moveCount = 5,
      startingPlayer = Some ''h'', turnDeadlineAt = Some 7000\<rparr>"
  unfolding botToMove_def exampleMatch_eq
  by (simp add: play_defs)

lemma reachable_botToMove: "reachable botToMove"
  unfolding botToMove_def by (rule reachable_run [OF reachable_exampleMatch]) simp

lemma available_botToMove: "available (board botToMove) = [2, 5, 6, 7]"
  by (simp add: botToMove_eq available_def upt_rec)

lemma pick_quarter:
  "[2, 5, 6, 7 :: nat] ! randomIndex (1 / 4) (length [2, 5, 6, 7 :: nat]) = 5"
  by (simp add: randomIndex_def)

lemma botToMove_timeout:
  "status (fst (handleTimeout 8000 (1 / 4) botToMove)) = Finished \<and>
   winner (fst (handleTimeout 8000 (1 / 4) botToMove)) = WinnerId (Some ''bot_1'') \<and>
   board (fst (handleTimeout 8000 (1 / 4) botToMove)) =
     [Some SymX, Some SymX, None, Some SymO, Some SymO, Some SymO, None, None, Some SymX] \<and>
   fst (snd (handleTimeout 8000 (1 / 4) botToMove)) = Some (Some ''bot_1'')"
  unfolding handleTimeout_def Let_def available_botToMove pick_quarter
  by (simp add: botToMove_eq playerIsBot_def makeMove_def
      currentPlayerSymbol_def checkWinner_def lines_def playerIds_def clearTurnTimer_def
      gameEnd_def truthy_def Let_def)

text \<open>
  Claim C5 as it is written fails where it says that the match continues after the
  bot's forced placement: in the match \<open>botToMove\<close> the bot holds cells 3 and 4 and the turn,
  its timeout with the draw \<open>1 / 4\<close> places its mark in cell 5, and the match is
  \<^verbatim>\<open>finished\<close> with the bot as winner.
\<close>

theorem bot_timeout_can_end_match:
  "status botToMove = Playing \<and> playerIsBot botToMove (turn botToMove) \<and>
   available (board botToMove) ! randomIndex (1 / 4) (length (available (board botToMove))) = 5 \<and>
   status (fst (handleTimeout 8000 (1 / 4) botToMove)) = Finished \<and>
   winner (fst (handleTimeout 8000 (1 / 4) botToMove)) = WinnerId (Some ''bot_1'') \<and>
   fst (snd (handleTimeout 8000 (1 / 4) botToMove)) = Some (Some ''bot_1'')"
proof -
  have a: "status botToMove = Playing" "playerIsBot botToMove (turn botToMove)"
    by (simp_all add: botToMove_eq playerIsBot_def)
  have b: "available (board botToMove) !
             randomIndex (1 / 4) (length (available (board botToMove))) = 5"
    unfolding available_botToMove by (rule pick_quarter)
  from a b botToMove_timeout show ?thesis by simp
qed

text \<open>
  Claim C5, amended. When the turn timer of a \<^verbatim>\<open>playing\<close> match that can be reached fires
  and \<open>r\<close> is the draw of \<^verbatim>\<open>Math.random()\<close>: if the mover is the bot, its mark is placed in
  one empty cell, chosen uniformly at random: of the \<open>n\<close> empty cells, listed in ascending
  order without repetition, the one at index \<open>k\<close> is taken exactly when
  \<open>k / n \<le> r < (k + 1) / n\<close>, so every empty cell is taken on an equal share \<open>1 / n\<close> of
  the draws. Then the match goes on with the other player to move when the board shows
  neither a line nor a draw, is restarted with an empty board when the board is drawn,
  and is \<^verbatim>\<open>finished\<close> with the bot as winner when the placement completes a line (the line
  is then the bot's own): the bot never forfeits. If the mover is a human, the match is
  \<^verbatim>\<open>finished\<close> with the other player as winner, and neither the board nor the move counter
  changes.
\<close>

theorem handleTimeout_outcomes:
  "reachable g \<Longrightarrow> status g = Playing \<Longrightarrow> 0 \<le> r \<Longrightarrow> r < 1 \<Longrightarrow>
   (\<exists>t. turn g = Some t \<and> t \<in> set (playerIds g) \<and>
     (if playerIsBot g (turn g)
      then (\<exists>av n pos m.
              av = available (board g) \<and> n = length av \<and> 0 < n \<and>
              sorted av \<and> distinct av \<and> set av = {c. c < 9 \<and> board g ! c = None} \<and>
              pos = av ! randomIndex r n \<and>
              (\<forall>k < n. pos = av ! k \<longleftrightarrow> real k / real n \<le> r \<and> r < (real k + 1) / real n) \<and>
              pos < 9 \<and> board g ! pos = None \<and> symbolOf g (turn g) = Some m \<and>
              (case checkWinner ((board g)[pos := Some m]) of
                 Ongoing \<Rightarrow> status (fst (handleTimeout now r g)) = Playing \<and>
                            board (fst (handleTimeout now r g)) = (board g)[pos := Some m] \<and>
                            (\<exists>u. turn (fst (handleTimeout now r g)) = Some u \<and> u \<noteq> t \<and>
                                 u \<in> set (playerIds g)) \<and>
                            fst (snd (handleTimeout now r g)) = None
               | DrawV \<Rightarrow> status (fst (handleTimeout now r g)) = Playing \<and>
                          board (fst (handleTimeout now r g)) = emptyBoard \<and>
                          fst (snd (handleTimeout now r g)) = None
               | Winner m' l \<Rightarrow> m' = m \<and>
                          status (fst (handleTimeout now r g)) = Finished \<and>
                          board (fst (handleTimeout now r g)) = (board g)[pos := Some m] \<and>
                          fst (snd (handleTimeout now r g)) = Some (Some t)))
      else status (fst (handleTimeout now r g)) = Finished \<and>
           board (fst (handleTimeout now r g)) = board g \<and>
           moveCount (fst (handleTimeout now r g)) = moveCount g \<and>
           (\<exists>u. fst (snd (handleTimeout now r g)) = Some (Some u) \<and> u \<noteq> t \<and>
                u \<in> set (playerIds g))))"
proof -
  assume re: "reachable g" and st: "status g = Playing" and r: "0 \<le> r" "r < 1"
  from re obtain p1 P1 p2 P2 where inv: "inv4 p1 P1 p2 P2 g"
    using reachable_matchInv unfolding matchInv_def by blast
  note b = inv4_basic [OF inv]
  from inv st obtain t where t: "turn g = Some t" unfolding inv4_def by blast
  from inv4_mover [OF inv st t] have tt: "t = p1 \<or> t = p2" by blast
  have ids: "set (playerIds g) = {p1, p2}" using b(1) by (auto simp: playerIds_def)
  have opp: "opponent p1 p2 t \<noteq> t" "opponent p1 p2 t \<in> set (playerIds g)"
    using b(2) tt ids by (auto simp: opponent_def)
  have tin: "t \<in> set (playerIds g)" using tt ids by auto
  show ?thesis
  proof (cases "playerIsBot g (turn g)")
    case False
    from handleTimeout_human [OF inv st t False, of now r] opp tin t False
    show ?thesis by auto
  next
    case True
    let ?av = "available (board g)"
    let ?n = "length ?av"
    let ?pos = "?av ! randomIndex r ?n"
    let ?m = "slotMark p1 t"
    have sym: "symbolOf g (turn g) = Some ?m"
      unfolding t by (rule symbolOf_slot [OF inv tt])
    from handleTimeout_bot [OF inv st t True r refl, of now]
    have av: "?av \<noteq> []" and pos: "?pos < 9" "board g ! ?pos = None" and
      out: "case checkWinner ((board g)[?pos := Some ?m]) of
             Ongoing \<Rightarrow> status (fst (handleTimeout now r g)) = Playing \<and>
                        board (fst (handleTimeout now r g)) = (board g)[?pos := Some ?m] \<and>
                        turn (fst (handleTimeout now r g)) = Some (opponent p1 p2 t) \<and>
                        fst (snd (handleTimeout now r g)) = None
           | DrawV \<Rightarrow> status (fst (handleTimeout now r g)) = Playing \<and>
                      board (fst (handleTimeout now r g)) = emptyBoard \<and>
                      fst (snd (handleTimeout now r g)) = None
           | Winner m' l \<Rightarrow> m' = ?m \<and>
                      status (fst (handleTimeout now r g)) = Finished \<and>
                      board (fst (handleTimeout now r g)) = (board g)[?pos := Some ?m] \<and>
                      fst (snd (handleTimeout now r g)) = Some (Some t)" by blast+
    have out': "case checkWinner ((board g)[?pos := Some ?m]) of
                 Ongoing \<Rightarrow> status (fst (handleTimeout now r g)) = Playing \<and>
                            board (fst (handleTimeout now r g)) = (board g)[?pos := Some ?m] \<and>
                            (\<exists>u. turn (fst (handleTimeout now r g)) = Some u \<and> u \<noteq> t \<and>
                                 u \<in> set (playerIds g)) \<and>
                            fst (snd (handleTimeout now r g)) = None
               | DrawV \<Rightarrow> status (fst (handleTimeout now r g)) = Playing \<and>
                          board (fst (handleTimeout now r g)) = emptyBoard \<and>
                          fst (snd (handleTimeout now r g)) = None
               | Winner m' l \<Rightarrow> m' = ?m \<and>
                          status (fst (handleTimeout now r g)) = Finished \<and>
                          board (fst (handleTimeout now r g)) = (board g)[?pos := Some ?m] \<and>
                          fst (snd (handleTimeout now r g)) = Some (Some t)"
      using out opp by (cases "checkWinner ((board g)[?pos := Some ?m])") simp_all
    have n: "0 < ?n" using av by simp
    have sd: "sorted ?av" "distinct ?av" by (simp_all add: available_sorted)
    have se: "set ?av = {c. c < 9 \<and> board g ! c = None}"
      unfolding available_set b(7) ..
    from forced_cell [OF r av]
    have uni: "\<forall>k < ?n. ?pos = ?av ! k \<longleftrightarrow> real k / real ?n \<le> r \<and> r < (real k + 1) / real ?n"
      by blast
    have "\<exists>av n pos m.
              av = available (board g) \<and> n = length av \<and> 0 < n \<and>
              sorted av \<and> distinct av \<and> set av = {c. c < 9 \<and> board g ! c = None} \<and>
              pos = av ! randomIndex r n \<and>
              (\<forall>k < n. pos = av ! k \<longleftrightarrow> real k / real n \<le> r \<and> r < (real k + 1) / real n) \<and>
              pos < 9 \<and> board g ! pos = None \<and> symbolOf g (turn g) = Some m \<and>
              (case checkWinner ((board g)[pos := Some m]) of
                 Ongoing \<Rightarrow> status (fst (handleTimeout now r g)) = Playing \<and>
                            board (fst (handleTimeout now r g)) = (board g)[pos := Some m] \<and>
                            (\<exists>u. turn (fst (handleTimeout now r g)) = Some u \<and> u \<noteq> t \<and>
                                 u \<in> set (playerIds g)) \<and>
                            fst (snd (handleTimeout now r g)) = None
               | DrawV \<Rightarrow> status (fst (handleTimeout now r g)) = Playing \<and>
                          board (fst (handleTimeout now r g)) = emptyBoard \<and>
                          fst (snd (handleTimeout now r g)) = None
               | Winner m' l \<Rightarrow> m' = m \<and>
                          status (fst (handleTimeout now r g)) = Finished \<and>
                          board (fst (handleTimeout now r g)) = (board g)[pos := Some m] \<and>
                          fst (snd (handleTimeout now r g)) = Some (Some t))"
      apply (rule exI [of _ ?av])
      apply (rule exI [of _ ?n])
      apply (rule exI [of _ ?pos])
      apply (rule exI [of _ ?m])
      using n sd se uni pos sym out' by (intro conjI) (rule refl | assumption)+
    with t tin True show ?thesis by simp
  qed
qed

text \<open>
  The example match timing out on the human, and the match \<open>botToMove\<close> timing out on the
  bot with the draw \<open>1 / 4\<close>: of the empty cells 2, 5, 6, 7 the one at index 1 is taken.
\<close>

theorem handleTimeout_outcomes_witness:
  "reachable exampleMatch \<and> status exampleMatch = Playing \<and> (0::real) \<le> 1 / 4 \<and> (1 / 4 :: real) < 1 \<and>
   \<not> playerIsBot exampleMatch (turn exampleMatch) \<and>
   status (fst (handleTimeout 9000 (1 / 4) exampleMatch)) = Finished \<and>
   board (fst (handleTimeout 9000 (1 / 4) exampleMatch)) = board exampleMatch \<and>
   fst (snd (handleTimeout 9000 (1 / 4) exampleMatch)) = Some (Some ''bot_1'') \<and>
   reachable botToMove \<and> status botToMove = Playing \<and>
   playerIsBot botToMove (turn botToMove) \<and>
   available (board botToMove) = [2, 5, 6, 7] \<and>
   randomIndex (1 / 4) 4 = 1 \<and>
   checkWinner ((board botToMove)[5 := Some SymO]) = Winner SymO [3, 4, 5] \<and>
   status (fst (handleTimeout 8000 (1 / 4) botToMove)) = Finished \<and>
   board (fst (handleTimeout 8000 (1 / 4) botToMove)) = (board botToMove)[5 := Some SymO]"
proof -
  have st: "status exampleMatch = Playing" "status botToMove = Playing"
    by (simp_all add: exampleMatch_eq botToMove_eq)
  have r: "(0::real) \<le> 1 / 4" "(1 / 4 :: real) < 1" by simp_all
  note human = handleTimeout_outcomes [OF reachable_exampleMatch st(1) r, of 9000]
  note robot = handleTimeout_outcomes [OF reachable_botToMove st(2) r, of 8000]
  have nb: "\<not> playerIsBot exampleMatch (turn exampleMatch)"
    "playerIsBot botToMove (turn botToMove)"
    by (simp_all add: exampleMatch_eq botToMove_eq playerIsBot_def)
  have ids: "set (playerIds exampleMatch) = {''h'', ''bot_1''}" "turn exampleMatch = Some ''h''"
    by (auto simp: exampleMatch_eq playerIds_def)
  from human nb(1) ids have h: "status (fst (handleTimeout 9000 (1 / 4) exampleMatch)) = Finished"
    "board (fst (handleTimeout 9000 (1 / 4) exampleMatch)) = board exampleMatch"
    "fst (snd (handleTimeout 9000 (1 / 4) exampleMatch)) = Some (Some ''bot_1'')"
    by auto
  have ri: "randomIndex (1 / 4) 4 = 1" by (simp add: randomIndex_def)
  have cw: "checkWinner ((board botToMove)[5 := Some SymO]) = Winner SymO [3, 4, 5]"
    by (simp add: botToMove_eq checkWinner_def lines_def)
  have sy: "symbolOf botToMove (turn botToMove) = Some SymO"
    by (simp add: botToMove_eq symbolOf_def)
  have ri4: "randomIndex (1 / 4) (Suc (Suc (Suc (Suc 0)))) = Suc 0"
    by (simp add: randomIndex_def)
  from robot nb(2)
  have fb: "status (fst (handleTimeout 8000 (1 / 4) botToMove)) = Finished \<and>
            board (fst (handleTimeout 8000 (1 / 4) botToMove)) = (board botToMove)[5 := Some SymO]"
    by (simp add: available_botToMove ri4 sy cw, blast)
  then have fin: "status (fst (handleTimeout 8000 (1 / 4) botToMove)) = Finished"
    and bd: "board (fst (handleTimeout 8000 (1 / 4) botToMove)) = (board botToMove)[5 := Some SymO]"
    by simp_all
  from reachable_exampleMatch reachable_botToMove st r nb h available_botToMove ri cw fin bd
  show ?thesis by simp
qed

section \<open>The restart after a draw\<close>

text \<open>
  In every match that can be reached, a move that draws the board makes \<^verbatim>\<open>makeMove\<close> name
  the other player as next starter and switch \<^verbatim>\<open>startingPlayer\<close> to that player; the
  call of \<^verbatim>\<open>handleDraw\<close> that every caller makes next switches \<^verbatim>\<open>startingPlayer\<close> once more.
  The round that follows is therefore started by the player who started the drawn round.
\<close>

lemma draw_restart:
  assumes "reachable g" "makeMove now sid pos g = (OkDraw n, g1, es)"
  shows "startingPlayer (fst (handleDraw now' g1)) = startingPlayer g \<and>
         turn (fst (handleDraw now' g1)) = startingPlayer g \<and>
         board (fst (handleDraw now' g1)) = emptyBoard \<and>
         moveCount (fst (handleDraw now' g1)) = 0 \<and>
         status (fst (handleDraw now' g1)) = Playing \<and>
         isFirstTurn (fst (handleDraw now' g1)) \<and>
         turnDeadlineAt (fst (handleDraw now' g1)) = Some (now' + 8000)"
proof -
  from assms(1) obtain p1 P1 p2 P2 where inv: "inv4 p1 P1 p2 P2 g"
    using reachable_matchInv unfolding matchInv_def by blast
  from inv4_draw [OF inv assms(2), of now'] show ?thesis by simp
qed

text \<open>
  Claim C3, on the code. The claim says that after a draw the other slot becomes the
  starting mover and current mover of the next round. In the match \<open>almostDrawn\<close> the
  round was started by \<^verbatim>\<open>h\<close>, and \<^verbatim>\<open>h\<close> fills the last cell at time 3000: \<^verbatim>\<open>makeMove\<close>
  reports a draw with \<^verbatim>\<open>bot_1\<close> as next starter, yet after the handler has called
  \<^verbatim>\<open>handleDraw\<close> the starting mover and the current mover of the new round are \<^verbatim>\<open>h\<close>
  again. The rest of the claim holds there: the board is cleared, the move counter is 0,
  the first-turn flag is set, the match is \<^verbatim>\<open>playing\<close> and a deadline 8000 ms ahead is
  armed.
\<close>

theorem draw_restart_same_starter:
  "startingPlayer almostDrawn = Some ''h'' \<and>
   fst (makeMove 3000 ''h'' 8 almostDrawn) = OkDraw (Some ''bot_1'') \<and>
   startingPlayer (fst (snd (makeMove 3000 ''h'' 8 almostDrawn))) = Some ''bot_1'' \<and>
   startingPlayer (applyEvent 3000 almostDrawn (Move ''h'' 8)) = Some ''h'' \<and>
   turn (applyEvent 3000 almostDrawn (Move ''h'' 8)) = Some ''h'' \<and>
   board (applyEvent 3000 almostDrawn (Move ''h'' 8)) = emptyBoard \<and>
   moveCount (applyEvent 3000 almostDrawn (Move ''h'' 8)) = 0 \<and>
   isFirstTurn (applyEvent 3000 almostDrawn (Move ''h'' 8)) \<and>
   status (applyEvent 3000 almostDrawn (Move ''h'' 8)) = Playing \<and>
   turnTimer (applyEvent 3000 almostDrawn (Move ''h'' 8)) = Some 8000 \<and>
   turnDeadlineAt (applyEvent 3000 almostDrawn (Move ''h'' 8)) = Some 11000"
  unfolding almostDrawn_eq
  by (simp add: play_defs handleDraw_def truthy_def emptyBoard_def numeral_eq_Suc)

section \<open>The outcome scripter\<close>


lemma truthy_Some: "truthy (Some a) \<longleftrightarrow> a \<noteq> []"
  by (simp add: truthy_def)

lemma determineOutcome_50:
  assumes "determineOutcome r ad bet s = ((v, p), s')"
  shows "(ad = Some a \<and> p = Some P50_sats \<longrightarrow>
            v = (PATTERN_50_SATS ! (cursor50 s a mod 9) = W) \<and> cursor50 s' a = Suc (cursor50 s a)) \<and>
         (\<not> (ad = Some a \<and> p = Some P50_sats) \<longrightarrow> cursor50 s' a = cursor50 s a)"
proof (cases "truthy ad")
  case False
  with assms show ?thesis by (auto simp: determineOutcome_def)
next
  case True
  then obtain a' where a': "ad = Some a'" "a' \<noteq> []" by (cases ad) (auto simp: truthy_def)
  have len: "length PATTERN_50_SATS = 9" by (simp add: PATTERN_50_SATS_def)
  show ?thesis
    using assms a' unfolding determineOutcome_def
    by (cases "playerHistory s a'"; cases "playerHistory s a")
       (auto simp: truthy_def Let_def cursor50_def len split: if_splits)
qed


lemma determineOutcome_300:
  assumes "determineOutcome r ad bet s = ((v, p), s')"
  shows "(ad = Some a \<and> p = Some P300_plus \<longrightarrow>
            v = (PATTERN_300_PLUS ! (cursor300 s a mod 9) = W) \<and> cursor300 s' a = Suc (cursor300 s a)) \<and>
         (\<not> (ad = Some a \<and> p = Some P300_plus) \<longrightarrow> cursor300 s' a = cursor300 s a)"
proof (cases "truthy ad")
  case False
  with assms show ?thesis by (auto simp: determineOutcome_def)
next
  case True
  then obtain a' where a': "ad = Some a'" "a' \<noteq> []" by (cases ad) (auto simp: truthy_def)
  have len: "length PATTERN_300_PLUS = 9" by (simp add: PATTERN_300_PLUS_def)
  show ?thesis
    using assms a' unfolding determineOutcome_def
    by (cases "playerHistory s a'"; cases "playerHistory s a")
       (auto simp: truthy_def Let_def cursor300_def len split: if_splits)
qed

lemma cycled_Suc:
  "(script ! (c mod length script) = W) # cycled script (Suc c) n = cycled script c (Suc n)"
  unfolding cycled_def by (simp add: map_upt_Suc del: upt_Suc)

lemma decide_Cons:
  "determineOutcome r ad bet s = ((v, p), s') \<Longrightarrow>
   decide s ((ad, bet, r) # qs) = (ad, p, v) # decide s' qs"
  by simp

lemma verdicts_50:
  "verdicts a P50_sats (decide s qs) =
   cycled PATTERN_50_SATS (cursor50 s a) (length (verdicts a P50_sats (decide s qs)))"
proof (induction qs arbitrary: s)
  case Nil
  show ?case by (simp add: verdicts_def cycled_def)
next
  case (Cons q qs)
  obtain ad bet r where q: "q = (ad, bet, r)" by (cases q) auto
  obtain v p s' where d: "determineOutcome r ad bet s = ((v, p), s')"
    by (cases "determineOutcome r ad bet s") auto
  have len: "length PATTERN_50_SATS = 9" by (simp add: PATTERN_50_SATS_def)
  note step = determineOutcome_50 [OF d, of a]
  show ?case
  proof (cases "ad = Some a \<and> p = Some P50_sats")
    case True
    with step have v: "v = (PATTERN_50_SATS ! (cursor50 s a mod length PATTERN_50_SATS) = W)"
      and c: "cursor50 s' a = Suc (cursor50 s a)" by (simp_all add: len)
    have hd: "verdicts a P50_sats (decide s (q # qs)) = v # verdicts a P50_sats (decide s' qs)"
      unfolding q decide_Cons [OF d] using True by (simp add: verdicts_def)
    then have ln: "length (verdicts a P50_sats (decide s (q # qs))) =
                   Suc (length (verdicts a P50_sats (decide s' qs)))" by simp
    have e2: "verdicts a P50_sats (decide s' qs) =
              cycled PATTERN_50_SATS (Suc (cursor50 s a)) (length (verdicts a P50_sats (decide s' qs)))"
      using Cons.IH [of s'] c by simp
    have e3: "v # cycled PATTERN_50_SATS (Suc (cursor50 s a)) (length (verdicts a P50_sats (decide s' qs))) =
              cycled PATTERN_50_SATS (cursor50 s a) (Suc (length (verdicts a P50_sats (decide s' qs))))"
      unfolding v by (rule cycled_Suc)
    have "verdicts a P50_sats (decide s (q # qs)) =
          cycled PATTERN_50_SATS (cursor50 s a) (Suc (length (verdicts a P50_sats (decide s' qs))))"
      unfolding hd using e2 e3 by simp
    then show ?thesis unfolding ln .
  next
    case False
    with step have c: "cursor50 s' a = cursor50 s a" by simp
    have "verdicts a P50_sats (decide s (q # qs)) = verdicts a P50_sats (decide s' qs)"
      unfolding q decide_Cons [OF d] using False by (auto simp: verdicts_def)
    with Cons.IH [of s'] c show ?thesis by simp
  qed
qed

lemma verdicts_300:
  "verdicts a P300_plus (decide s qs) =
   cycled PATTERN_300_PLUS (cursor300 s a) (length (verdicts a P300_plus (decide s qs)))"
proof (induction qs arbitrary: s)
  case Nil
  show ?case by (simp add: verdicts_def cycled_def)
next
  case (Cons q qs)
  obtain ad bet r where q: "q = (ad, bet, r)" by (cases q) auto
  obtain v p s' where d: "determineOutcome r ad bet s = ((v, p), s')"
    by (cases "determineOutcome r ad bet s") auto
  have len: "length PATTERN_300_PLUS = 9" by (simp add: PATTERN_300_PLUS_def)
  note step = determineOutcome_300 [OF d, of a]
  show ?case
  proof (cases "ad = Some a \<and> p = Some P300_plus")
    case True
    with step have v: "v = (PATTERN_300_PLUS ! (cursor300 s a mod length PATTERN_300_PLUS) = W)"
      and c: "cursor300 s' a = Suc (cursor300 s a)" by (simp_all add: len)
    have hd: "verdicts a P300_plus (decide s (q # qs)) = v # verdicts a P300_plus (decide s' qs)"
      unfolding q decide_Cons [OF d] using True by (simp add: verdicts_def)
    then have ln: "length (verdicts a P300_plus (decide s (q # qs))) =
                   Suc (length (verdicts a P300_plus (decide s' qs)))" by simp
    have e2: "verdicts a P300_plus (decide s' qs) =
              cycled PATTERN_300_PLUS (Suc (cursor300 s a)) (length (verdicts a P300_plus (decide s' qs)))"
      using Cons.IH [of s'] c by simp
    have e3: "v # cycled PATTERN_300_PLUS (Suc (cursor300 s a)) (length (verdicts a P300_plus (decide s' qs))) =
              cycled PATTERN_300_PLUS (cursor300 s a) (Suc (length (verdicts a P300_plus (decide s' qs))))"
      unfolding v by (rule cycled_Suc)
    have "verdicts a P300_plus (decide s (q # qs)) =
          cycled PATTERN_300_PLUS (cursor300 s a) (Suc (length (verdicts a P300_plus (decide s' qs))))"
      unfolding hd using e2 e3 by simp
    then show ?thesis unfolding ln .
  next
    case False
    with step have c: "cursor300 s' a = cursor300 s a" by simp
    have "verdicts a P300_plus (decide s (q # qs)) = verdicts a P300_plus (decide s' qs)"
      unfolding q decide_Cons [OF d] using False by (auto simp: verdicts_def)
    with Cons.IH [of s'] c show ?thesis by simp
  qed
qed

lemma determineOutcome_pattern:
  assumes "a \<noteq> []"
  shows "snd (fst (determineOutcome r (Some a) bet s)) =
           (if bet = 50 then Some P50_sats
            else if 300 \<le> bet then
              (if (\<exists>bi. betHistory s a = Some bi \<and> lastBet bi = Some bet \<and>
                         lastResult bi = Some L \<and> gameCount bi = 1)
               then Some P300_plus_revenge else Some P300_plus)
            else None)"
  using assms unfolding determineOutcome_def
  by (cases "betHistory s a") (auto simp: truthy_def Let_def)


text \<open>
  Claim C1. For a tracked opponent (a non-empty address \<open>a\<close>) and any sequence of
  decisions, of any opponents at any amounts, from any state of the two maps: the values
  returned to \<open>a\<close> by the decisions of the 50-sats script are the script
  W-L-W-W-L-L-L-W-L read cyclically from \<open>a\<close>'s cursor, the \<open>i\<close>-th of them (from 0) being
  ``token \<open>(cursor + i) mod 9\<close> is W''; the same holds of the decisions of the 300-plus
  script with its script and cursor, the rematch overrides among them not counted. A
  decision for \<open>a\<close> at 50 sats always is one of the 50-sats script, and a decision at 300
  sats or more is one of the 300-plus script or a rematch override.
\<close>

theorem script_cycles:
  "a \<noteq> [] \<Longrightarrow>
   verdicts a P50_sats (decide s qs) =
     map (\<lambda>i. PATTERN_50_SATS ! ((cursor50 s a + i) mod 9) = W)
         [0..<length (verdicts a P50_sats (decide s qs))] \<and>
   verdicts a P300_plus (decide s qs) =
     map (\<lambda>i. PATTERN_300_PLUS ! ((cursor300 s a + i) mod 9) = W)
         [0..<length (verdicts a P300_plus (decide s qs))] \<and>
   (\<forall>r. snd (fst (determineOutcome r (Some a) 50 s)) = Some P50_sats) \<and>
   (\<forall>r bet. 300 \<le> bet \<longrightarrow>
      snd (fst (determineOutcome r (Some a) bet s)) = Some P300_plus \<or>
      snd (fst (determineOutcome r (Some a) bet s)) = Some P300_plus_revenge)"
proof -
  assume a: "a \<noteq> []"
  have l: "length PATTERN_50_SATS = 9" "length PATTERN_300_PLUS = 9"
    by (simp_all add: PATTERN_50_SATS_def PATTERN_300_PLUS_def)
  have "verdicts a P50_sats (decide s qs) =
     map (\<lambda>i. PATTERN_50_SATS ! ((cursor50 s a + i) mod 9) = W)
         [0..<length (verdicts a P50_sats (decide s qs))]"
    using verdicts_50 [of a s qs] unfolding cycled_def l .
  moreover have "verdicts a P300_plus (decide s qs) =
     map (\<lambda>i. PATTERN_300_PLUS ! ((cursor300 s a + i) mod 9) = W)
         [0..<length (verdicts a P300_plus (decide s qs))]"
    using verdicts_300 [of a s qs] unfolding cycled_def l .
  moreover have "\<forall>r. snd (fst (determineOutcome r (Some a) 50 s)) = Some P50_sats"
    by (simp add: determineOutcome_pattern [OF a])
  moreover have "\<forall>r bet. 300 \<le> bet \<longrightarrow>
      snd (fst (determineOutcome r (Some a) bet s)) = Some P300_plus \<or>
      snd (fst (determineOutcome r (Some a) bet s)) = Some P300_plus_revenge"
    by (simp add: determineOutcome_pattern [OF a])
  ultimately show ?thesis by blast
qed

lemmas scripter_defs = determineOutcome_def truthy_def emptyScripter_def PATTERN_50_SATS_def
  PATTERN_300_PLUS_def Let_def

lemma ten_decisions_50:
  "decide emptyScripter 
     [(Some ''a'', 50, 0), (Some ''a'', 50, 0), (Some ''a'', 50, 0), (Some ''a'', 50, 0),
      (Some ''a'', 50, 0), (Some ''a'', 50, 0), (Some ''a'', 50, 0), (Some ''a'', 50, 0),
      (Some ''a'', 50, 0), (Some ''a'', 50, 0)] =
     map (\<lambda>v. (Some ''a'', Some P50_sats, v))
       [True, False, True, True, False, False, False, True, False, True]"
  by (simp add: scripter_defs)

lemma four_decisions_300:
  "decide emptyScripter [(Some ''a'', 300, 0), (Some ''a'', 300, 0), (Some ''a'', 50, 0),
                         (Some ''a'', 300, 0), (Some ''a'', 500, 0)] =
     [(Some ''a'', Some P300_plus, False), (Some ''a'', Some P300_plus_revenge, False),
      (Some ''a'', Some P50_sats, True),
      (Some ''a'', Some P300_plus, True), (Some ''a'', Some P300_plus, False)]"
  by (simp add: scripter_defs)

theorem script_cycles_witness:
  "''a'' \<noteq> [] \<and>
   verdicts ''a'' P50_sats (decide emptyScripter 
     [(Some ''a'', 50, 0), (Some ''a'', 50, 0), (Some ''a'', 50, 0), (Some ''a'', 50, 0),
      (Some ''a'', 50, 0), (Some ''a'', 50, 0), (Some ''a'', 50, 0), (Some ''a'', 50, 0),
      (Some ''a'', 50, 0), (Some ''a'', 50, 0)]) =
     [True, False, True, True, False, False, False, True, False, True] \<and>
   verdicts ''a'' P300_plus
     (decide emptyScripter [(Some ''a'', 300, 0), (Some ''a'', 300, 0), (Some ''a'', 50, 0),
                            (Some ''a'', 300, 0), (Some ''a'', 500, 0)]) =
     [False, True, False]"
proof -
  have a: "''a'' \<noteq> []" by simp
  note t1 = script_cycles [OF a, of emptyScripter "[(Some ''a'', 50, 0), (Some ''a'', 50, 0), (Some ''a'', 50, 0), (Some ''a'', 50, 0),
      (Some ''a'', 50, 0), (Some ''a'', 50, 0), (Some ''a'', 50, 0), (Some ''a'', 50, 0),
      (Some ''a'', 50, 0), (Some ''a'', 50, 0)]"]
  have v1: "verdicts ''a'' P50_sats (decide emptyScripter 
     [(Some ''a'', 50, 0), (Some ''a'', 50, 0), (Some ''a'', 50, 0), (Some ''a'', 50, 0),
      (Some ''a'', 50, 0), (Some ''a'', 50, 0), (Some ''a'', 50, 0), (Some ''a'', 50, 0),
      (Some ''a'', 50, 0), (Some ''a'', 50, 0)]) =
     [True, False, True, True, False, False, False, True, False, True]"
    unfolding ten_decisions_50 by (simp add: verdicts_def)
  have v2: "verdicts ''a'' P300_plus
     (decide emptyScripter [(Some ''a'', 300, 0), (Some ''a'', 300, 0), (Some ''a'', 50, 0),
                            (Some ''a'', 300, 0), (Some ''a'', 500, 0)]) =
     [False, True, False]"
    unfolding four_decisions_300 by (simp add: verdicts_def)
  from t1 a v1 v2 show ?thesis by blast
qed


lemma determineOutcome_gameCount:
  assumes "determineOutcome r ad bet s = ((v, p), s')"
  shows "gamesAt300 s a \<le> gamesAt300 s' a \<and>
         (p = Some P300_plus_revenge \<longrightarrow> \<not> v) \<and>
         (ad = Some a \<and> p = Some P300_plus_revenge \<longrightarrow>
            gamesAt300 s a = 1 \<and> gamesAt300 s' a = 2)"
proof (cases "truthy ad")
  case False
  with assms show ?thesis by (auto simp: determineOutcome_def)
next
  case True
  then obtain a' where a': "ad = Some a'" "a' \<noteq> []" by (cases ad) (auto simp: truthy_def)
  show ?thesis
    using assms a' unfolding determineOutcome_def
    by (cases "betHistory s a'"; cases "betHistory s a")
       (auto simp: truthy_def Let_def gamesAt300_def split: if_splits)
qed

lemma revenge_once:
  "length (verdicts a P300_plus_revenge (decide s qs)) \<le> (if gamesAt300 s a \<le> 1 then 1 else 0)"
proof (induction qs arbitrary: s)
  case Nil
  show ?case by (simp add: verdicts_def)
next
  case (Cons q qs)
  obtain ad bet r where q: "q = (ad, bet, r)" by (cases q) auto
  obtain v p s' where d: "determineOutcome r ad bet s = ((v, p), s')"
    by (cases "determineOutcome r ad bet s") auto
  note step = determineOutcome_gameCount [OF d, of a]
  show ?case
  proof (cases "ad = Some a \<and> p = Some P300_plus_revenge")
    case True
    with step have g: "gamesAt300 s a = 1" "gamesAt300 s' a = 2" by simp_all
    have "verdicts a P300_plus_revenge (decide s (q # qs)) =
          v # verdicts a P300_plus_revenge (decide s' qs)"
      unfolding q decide_Cons [OF d] using True by (simp add: verdicts_def)
    with Cons.IH [of s'] g show ?thesis by simp
  next
    case False
    have "verdicts a P300_plus_revenge (decide s (q # qs)) =
          verdicts a P300_plus_revenge (decide s' qs)"
      unfolding q decide_Cons [OF d] using False by (auto simp: verdicts_def)
    with Cons.IH [of s'] step show ?thesis by (auto split: if_splits)
  qed
qed

lemma revenge_value:
  assumes "snd (fst (determineOutcome r ad bet s)) = Some P300_plus_revenge"
  shows "\<not> fst (fst (determineOutcome r ad bet s)) \<and>
         cursor300 (snd (determineOutcome r ad bet s)) a = cursor300 s a \<and>
         cursor50 (snd (determineOutcome r ad bet s)) a = cursor50 s a"
proof -
  obtain v p s' where d: "determineOutcome r ad bet s = ((v, p), s')"
    by (cases "determineOutcome r ad bet s") auto
  with assms have p: "p = Some P300_plus_revenge" by simp
  from determineOutcome_300 [OF d, of a] determineOutcome_50 [OF d, of a] p
    determineOutcome_gameCount [OF d, of a]
  show ?thesis unfolding d by simp
qed


lemma first_high_tier_loss:
  assumes "a \<noteq> []" "300 \<le> bet" "betHistory s a = None"
    "PATTERN_300_PLUS ! (cursor300 s a mod 9) = L"
  shows "fst (determineOutcome r (Some a) bet s) = (False, Some P300_plus) \<and>
         betHistory (snd (determineOutcome r (Some a) bet s)) a =
           Some \<lparr>lastBet = Some bet, lastResult = Some L, gameCount = 1, consecutiveSameBet = 0\<rparr>"
proof -
  have len: "length PATTERN_300_PLUS = 9" by (simp add: PATTERN_300_PLUS_def)
  show ?thesis
    using assms unfolding determineOutcome_def
    by (cases "playerHistory s a") (auto simp: truthy_def Let_def cursor300_def len)
qed

text \<open>
  The override in every state. For a tracked opponent \<open>a\<close> and an amount of 300 sats or
  more, the decision is a rematch override exactly when \<open>a\<close>'s one bet record shows this
  same amount as last amount, L as last result and a game count of 1; an override returns
  \<^verbatim>\<open>false\<close> (the bot must lose, the player is let win) and moves no script cursor. If \<open>a\<close>
  has no bet record yet and the script token at \<open>a\<close>'s cursor is L, the decision returns
  \<^verbatim>\<open>false\<close> by the script, a decision at the same amount that follows at once is the
  override, and one at another amount of 300 sats or more is not. In any sequence of
  decisions at most one is an override for \<open>a\<close>.
\<close>

lemma revenge_exactly_when:
  "a \<noteq> [] \<Longrightarrow> 300 \<le> bet \<Longrightarrow>
   (snd (fst (determineOutcome r (Some a) bet s)) = Some P300_plus_revenge \<longleftrightarrow>
      (\<exists>bi. betHistory s a = Some bi \<and> lastBet bi = Some bet \<and> lastResult bi = Some L \<and>
            gameCount bi = 1)) \<and>
   (snd (fst (determineOutcome r (Some a) bet s)) = Some P300_plus_revenge \<longrightarrow>
      \<not> fst (fst (determineOutcome r (Some a) bet s)) \<and>
      cursor300 (snd (determineOutcome r (Some a) bet s)) a = cursor300 s a) \<and>
   (betHistory s a = None \<and> PATTERN_300_PLUS ! (cursor300 s a mod 9) = L \<longrightarrow>
      fst (determineOutcome r (Some a) bet s) = (False, Some P300_plus) \<and>
      fst (determineOutcome r' (Some a) bet (snd (determineOutcome r (Some a) bet s))) =
        (False, Some P300_plus_revenge) \<and>
      (\<forall>bet'. 300 \<le> bet' \<and> bet' \<noteq> bet \<longrightarrow>
         snd (fst (determineOutcome r' (Some a) bet' (snd (determineOutcome r (Some a) bet s)))) =
           Some P300_plus)) \<and>
   length (verdicts a P300_plus_revenge (decide s qs)) \<le> 1"
proof -
  assume a: "a \<noteq> []" and bet: "300 \<le> bet"
  have ne50: "bet \<noteq> 50" using bet by simp
  have c1: "snd (fst (determineOutcome r (Some a) bet s)) = Some P300_plus_revenge \<longleftrightarrow>
      (\<exists>bi. betHistory s a = Some bi \<and> lastBet bi = Some bet \<and> lastResult bi = Some L \<and>
            gameCount bi = 1)"
    unfolding determineOutcome_pattern [OF a] using bet ne50 by simp
  have c2: "snd (fst (determineOutcome r (Some a) bet s)) = Some P300_plus_revenge \<longrightarrow>
      \<not> fst (fst (determineOutcome r (Some a) bet s)) \<and>
      cursor300 (snd (determineOutcome r (Some a) bet s)) a = cursor300 s a"
    using revenge_value [of r "Some a" bet s a] by blast
  have c3: "betHistory s a = None \<and> PATTERN_300_PLUS ! (cursor300 s a mod 9) = L \<longrightarrow>
      fst (determineOutcome r (Some a) bet s) = (False, Some P300_plus) \<and>
      fst (determineOutcome r' (Some a) bet (snd (determineOutcome r (Some a) bet s))) =
        (False, Some P300_plus_revenge) \<and>
      (\<forall>bet'. 300 \<le> bet' \<and> bet' \<noteq> bet \<longrightarrow>
         snd (fst (determineOutcome r' (Some a) bet' (snd (determineOutcome r (Some a) bet s)))) =
           Some P300_plus)"
  proof
    assume h: "betHistory s a = None \<and> PATTERN_300_PLUS ! (cursor300 s a mod 9) = L"
    let ?s1 = "snd (determineOutcome r (Some a) bet s)"
    from first_high_tier_loss [OF a bet, of s r] h
    have f: "fst (determineOutcome r (Some a) bet s) = (False, Some P300_plus)"
      and bh: "betHistory ?s1 a =
           Some \<lparr>lastBet = Some bet, lastResult = Some L, gameCount = 1, consecutiveSameBet = 0\<rparr>"
      by simp_all
    have p2: "snd (fst (determineOutcome r' (Some a) bet ?s1)) = Some P300_plus_revenge"
      unfolding determineOutcome_pattern [OF a] using bet ne50 bh by simp
    with revenge_value [of r' "Some a" bet ?s1 a]
    have v2: "\<not> fst (fst (determineOutcome r' (Some a) bet ?s1))" by blast
    from p2 v2 have s2: "fst (determineOutcome r' (Some a) bet ?s1) = (False, Some P300_plus_revenge)"
      by (cases "determineOutcome r' (Some a) bet ?s1") auto
    have o: "\<forall>bet'. 300 \<le> bet' \<and> bet' \<noteq> bet \<longrightarrow>
         snd (fst (determineOutcome r' (Some a) bet' ?s1)) = Some P300_plus"
      unfolding determineOutcome_pattern [OF a] using bh by auto
    from f s2 o show "fst (determineOutcome r (Some a) bet s) = (False, Some P300_plus) \<and>
      fst (determineOutcome r' (Some a) bet ?s1) = (False, Some P300_plus_revenge) \<and>
      (\<forall>bet'. 300 \<le> bet' \<and> bet' \<noteq> bet \<longrightarrow>
         snd (fst (determineOutcome r' (Some a) bet' ?s1)) = Some P300_plus)" by blast
  qed
  have c4: "length (verdicts a P300_plus_revenge (decide s qs)) \<le> 1"
    using revenge_once [of a s qs] by (auto split: if_splits)
  from c1 c2 c3 c4 show ?thesis by blast
qed

text \<open>
  Claim C2, on the code. The claim scopes the override to the amount: after a first game
  at an amount of 300 sats or more that the script marks L, the next decision at exactly
  that amount is the override, and a change of amount in between neither triggers nor
  uses it up. The comment of the override says the same (``Player lost first game with
  this bet amount - let them win on 2nd try''), and so does the requirement list of
  \<^verbatim>\<open>BOT-SPECIFICATIONS.md\<close> (``Must be the player's 2nd game with that bet amount'').
  The code keeps one bet record per address, not one per amount, and its guard
  \<^verbatim>\<open>gameCount === 1\<close> counts the games at every amount of 300 sats or more. For a new
  opponent the decisions at 300, 300 are the script (token L) and the override, which
  returns \<^verbatim>\<open>false\<close>; but at 300, 500, 300 the decision at 500 overwrites the record of
  the lost game at 300 and raises the count to 2, and the third decision, the second at
  300, follows the script: the change of amount has used the override up.
\<close>

theorem rematch_override_lost_by_tier_switch:
  "decide emptyScripter [(Some ''a'', 300, 0), (Some ''a'', 300, 0)] =
     [(Some ''a'', Some P300_plus, False), (Some ''a'', Some P300_plus_revenge, False)] \<and>
   decide emptyScripter [(Some ''a'', 300, 0), (Some ''a'', 500, 0), (Some ''a'', 300, 0)] =
     [(Some ''a'', Some P300_plus, False), (Some ''a'', Some P300_plus, True),
      (Some ''a'', Some P300_plus, False)] \<and>
   betHistory (snd (determineOutcome 0 (Some ''a'') 300 emptyScripter)) ''a'' =
     Some \<lparr>lastBet = Some 300, lastResult = Some L, gameCount = 1, consecutiveSameBet = 0\<rparr> \<and>
   betHistory (snd (determineOutcome 0 (Some ''a'') 500
                      (snd (determineOutcome 0 (Some ''a'') 300 emptyScripter)))) ''a'' =
     Some \<lparr>lastBet = Some 500, lastResult = Some W, gameCount = 2, consecutiveSameBet = 0\<rparr>"
  by (simp add: scripter_defs)

section \<open>The moves of a must-win bot\<close>


lemma critical_line:
  "length (filter (\<lambda>v. v = Some m) [x, y, z]) = 2 \<Longrightarrow> None \<in> set [x, y, z] \<Longrightarrow>
   (indexOf None [x, y, z] = 0 \<and> x = None \<and> y = Some m \<and> z = Some m) \<or>
   (indexOf None [x, y, z] = 1 \<and> y = None \<and> x = Some m \<and> z = Some m) \<or>
   (indexOf None [x, y, z] = 2 \<and> z = None \<and> x = Some m \<and> y = Some m)"
  by (auto simp: indexOf_def split: if_splits)

lemma critical_Cons:
  "critical m b ((i, j, k) # ls) =
     (if length (filter (\<lambda>v. v = Some m) [b ! i, b ! j, b ! k]) = 2 \<and>
         None \<in> set [b ! i, b ! j, b ! k]
      then Some ([i, j, k] ! indexOf None [b ! i, b ! j, b ! k])
      else critical m b ls)"
  by (simp only: critical.simps Let_def)

lemma critical_Some:
  "critical m b ls = Some c \<Longrightarrow> \<exists>l \<in> set ls. threatAt m b l c"
proof (induction ls)
  case Nil
  then show ?case by simp
next
  case (Cons l ls)
  obtain i j k where l: "l = (i, j, k)" by (cases l) auto
  show ?case
  proof (cases "length (filter (\<lambda>v. v = Some m) [b ! i, b ! j, b ! k]) = 2 \<and>
                None \<in> set [b ! i, b ! j, b ! k]")
    case True
    from True have "critical m b (l # ls) = Some ([i, j, k] ! indexOf None [b ! i, b ! j, b ! k])"
      unfolding l critical_Cons by (rule if_P)
    with Cons.prems have c: "c = [i, j, k] ! indexOf None [b ! i, b ! j, b ! k]"
      by (simp only: option.inject)
    from True critical_line [of m "b ! i" "b ! j" "b ! k"]
    have "threatAt m b (i, j, k) c" unfolding c threatAt_def by auto
    then show ?thesis by (simp add: l)
  next
    case False
    from False have "critical m b (l # ls) = critical m b ls"
      unfolding l critical_Cons by (rule if_not_P)
    with Cons.prems have "critical m b ls = Some c" by (simp only:)
    with Cons.IH show ?thesis by auto
  qed
qed

lemma threatAt_empty:
  "l \<in> set lines \<Longrightarrow> threatAt m b l c \<Longrightarrow> c < 9 \<and> b ! c = None"
  by (auto simp: threatAt_def lines_def)

lemma threatAt_completes:
  assumes "l \<in> set lines" "threatAt m b l c" "length b = 9"
  shows "\<exists>(i, j, k) \<in> set lines. b[c := Some m] ! i = Some m \<and> b[c := Some m] ! j = Some m \<and>
            b[c := Some m] ! k = Some m"
proof -
  obtain i j k where l: "l = (i, j, k)" by (cases l) auto
  from assms(1) l have lt: "i < 9" "j < 9" "k < 9" by (auto simp: lines_def)
  from assms(2) l lt assms(3)
  have "b[c := Some m] ! i = Some m \<and> b[c := Some m] ! j = Some m \<and> b[c := Some m] ! k = Some m"
    by (auto simp: threatAt_def nth_list_update)
  with assms(1) l show ?thesis by blast
qed


lemma pick_mem:
  assumes "0 \<le> r" "r < 1" "xs \<noteq> []"
  shows "\<exists>i. pick r xs = Some i \<and> i \<in> set xs"
proof -
  from assms have "randomIndex r (length xs) < length xs"
    by (intro randomIndex_less) simp_all
  then show ?thesis by (simp add: pick_def Let_def)
qed

lemma evaluateBoard_available:
  assumes "length b = 9" "evaluateBoard b = Some c"
  shows "c \<in> set (available b)"
proof -
  from assms(2) have "critical SymO b lines = Some c \<or> critical SymX b lines = Some c"
    by (auto simp: evaluateBoard_def split: option.splits)
  then obtain m l where "l \<in> set lines" "threatAt m b l c"
    using critical_Some by blast
  from threatAt_empty [OF this] assms(1) show ?thesis by (simp add: available_iff)
qed

lemma getStrategicMove_critical:
  "evaluateBoard b = Some c \<Longrightarrow> getStrategicMove rnd k b = (Some c, k)"
  by (simp add: getStrategicMove_def)

lemma emptyCells_available:
  "length b = 9 \<Longrightarrow> set cells \<subseteq> {0..<9} \<Longrightarrow> set (emptyCells b cells) \<subseteq> set (available b)"
  by (auto simp: available_iff emptyCells_def)

lemma getStrategicMove_legal:
  assumes len: "length b = 9" and rnd: "\<forall>n. 0 \<le> rnd n \<and> rnd n < 1"
    and res: "fst (getStrategicMove rnd k b) = Some i"
  shows "i \<in> set (available b)"
proof (cases "evaluateBoard b")
  case (Some c)
  with res getStrategicMove_critical [OF Some, of rnd k] evaluateBoard_available [OF len Some]
  show ?thesis by simp
next
  case None
  show ?thesis
  proof (cases "b ! 4 = None")
    case True
    with None res len show ?thesis by (simp add: getStrategicMove_def available_iff)
  next
    case False
    let ?cs = "emptyCells b [0, 2, 6, 8]"
    let ?es = "emptyCells b [1, 3, 5, 7]"
    have cs: "set ?cs \<subseteq> set (available b)" by (rule emptyCells_available [OF len]) simp
    have es: "set ?es \<subseteq> set (available b)" by (rule emptyCells_available [OF len]) simp
    show ?thesis
    proof (cases "?cs = []")
      case cne: False
      from pick_mem [OF _ _ cne, of "rnd k"] rnd obtain j where j: "pick (rnd k) ?cs = Some j" "j \<in> set ?cs"
        by blast
      have "getStrategicMove rnd k b = (pick (rnd k) ?cs, Suc k)"
        using None False cne by (simp add: getStrategicMove_def Let_def)
      with res j cs show ?thesis by auto
    next
      case ce: True
      show ?thesis
      proof (cases "?es = []")
        case ene: False
        from pick_mem [OF _ _ ene, of "rnd k"] rnd obtain j where j: "pick (rnd k) ?es = Some j" "j \<in> set ?es"
          by blast
        have "getStrategicMove rnd k b = (pick (rnd k) ?es, Suc k)"
          using None False ce ene by (simp add: getStrategicMove_def Let_def)
        with res j es show ?thesis by auto
      next
        case True
        have "getStrategicMove rnd k b = (None, k)"
          using None False ce True by (simp add: getStrategicMove_def Let_def)
        with res show ?thesis by simp
      qed
    qed
  qed
qed

lemma orRandom_legal:
  assumes av: "available b \<noteq> []" and rnd: "\<forall>n. 0 \<le> rnd n \<and> rnd n < 1"
    and x: "\<And>i. x = Some i \<Longrightarrow> i \<in> set (available b)"
  shows "\<exists>i. fst (orRandom rnd (x, k) b) = Some i \<and> i \<in> set (available b)"
proof -
  from pick_mem [OF _ _ av, of "rnd k"] rnd obtain j where
    j: "pick (rnd k) (available b) = Some j" "j \<in> set (available b)" by blast
  show ?thesis
  proof (cases x)
    case None
    with j show ?thesis by (simp add: orRandom_def)
  next
    case (Some i)
    with j x [OF Some] show ?thesis by (simp add: orRandom_def)
  qed
qed

lemma orRandom_keeps: "c \<noteq> 0 \<Longrightarrow> orRandom rnd (Some c, k) b = (Some c, k)"
  by (simp add: orRandom_def)


lemma threatAt_critical:
  "l \<in> set ls \<Longrightarrow> threatAt m b l c \<Longrightarrow> \<exists>c'. critical m b ls = Some c'"
proof (induction ls)
  case Nil
  then show ?case by simp
next
  case (Cons l' ls)
  obtain i j k where l': "l' = (i, j, k)" by (cases l') auto
  show ?case
  proof (cases "length (filter (\<lambda>v. v = Some m) [b ! i, b ! j, b ! k]) = 2 \<and>
                None \<in> set [b ! i, b ! j, b ! k]")
    case True
    then have "critical m b (l' # ls) = Some ([i, j, k] ! indexOf None [b ! i, b ! j, b ! k])"
      unfolding l' critical_Cons by (rule if_P)
    then show ?thesis by blast
  next
    case False
    then have eq: "critical m b (l' # ls) = critical m b ls"
      unfolding l' critical_Cons by (rule if_not_P)
    have "l \<noteq> l'"
    proof
      assume "l = l'"
      with Cons.prems(2) l' have "threatAt m b (i, j, k) c" by simp
      then have "length (filter (\<lambda>v. v = Some m) [b ! i, b ! j, b ! k]) = 2 \<and>
                None \<in> set [b ! i, b ! j, b ! k]"
        by (auto simp: threatAt_def)
      with False show False by blast
    qed
    with Cons.prems(1) have "l \<in> set ls" by simp
    from Cons.IH [OF this Cons.prems(2)] eq show ?thesis by simp
  qed
qed

lemma available_first:
  assumes "0 \<in> set (available b)"
  shows "available b ! 0 = 0"
proof -
  from assms have "0 < length b" "b ! 0 = None" by (simp_all add: available_iff)
  then show ?thesis by (simp add: available_def upt_conv_Cons)
qed

lemma getNextMove_mustWin:
  assumes "available b \<noteq> []" "shouldWin bp"
  shows "getNextMove rnd k b bp =
     (if forcedEnd bp b
      then ((case fst (getStrategicMove rnd k b) of
               Some i \<Rightarrow> if i \<noteq> 0 then Some i else Some (available b ! 0)
             | None \<Rightarrow> Some (available b ! 0)),
            snd (checkPotentialDraw bp b), snd (getStrategicMove rnd k b))
      else if rnd k < 9 / 10
      then (fst (orRandom rnd (getStrategicMove rnd (Suc k) b) b),
            snd (checkPotentialDraw bp b),
            snd (orRandom rnd (getStrategicMove rnd (Suc k) b) b))
      else (pick (rnd (Suc k)) (available b), snd (checkPotentialDraw bp b), Suc (Suc k)))"
  using assms
  by (simp add: getNextMove_def Let_def split_beta checkPotentialDraw_def forcedEnd_def)

lemma getNextMove_mustWin_legal:
  assumes len: "length b = 9" and av: "available b \<noteq> []"
    and rnd: "\<forall>n. 0 \<le> rnd n \<and> rnd n < 1" and sw: "shouldWin bp"
  shows "\<exists>i. fst (getNextMove rnd k b bp) = Some i \<and> i \<in> set (available b)"
proof (cases "forcedEnd bp b")
  case True
  have a0: "available b ! 0 \<in> set (available b)" using av by simp
  show ?thesis
  proof (cases "fst (getStrategicMove rnd k b)")
    case None
    with True a0 show ?thesis unfolding getNextMove_mustWin [OF av sw] by simp
  next
    case (Some i)
    from getStrategicMove_legal [OF len rnd Some] Some True a0 show ?thesis
      unfolding getNextMove_mustWin [OF av sw] by simp
  qed
next
  case False
  show ?thesis
  proof (cases "rnd k < 9 / 10")
    case True
    obtain x k' where g: "getStrategicMove rnd (Suc k) b = (x, k')"
      by (cases "getStrategicMove rnd (Suc k) b") auto
    have "\<And>i. x = Some i \<Longrightarrow> i \<in> set (available b)"
      using getStrategicMove_legal [OF len rnd, where k = "Suc k"] g by simp
    from orRandom_legal [OF av rnd this, of x k'] False True g show ?thesis
      unfolding getNextMove_mustWin [OF av sw] by simp
  next
    case r: False
    from pick_mem [OF _ _ av, of "rnd (Suc k)"] rnd False r show ?thesis
      unfolding getNextMove_mustWin [OF av sw] by simp
  qed
qed

lemma getNextMove_mustWin_critical:
  assumes len: "length b = 9" and av: "available b \<noteq> []" and sw: "shouldWin bp"
    and ev: "evaluateBoard b = Some c"
    and br: "forcedEnd bp b \<or> (rnd k < 9 / 10 \<and> c \<noteq> 0)"
  shows "fst (getNextMove rnd k b bp) = Some c"
proof (cases "forcedEnd bp b")
  case True
  have "c = 0 \<Longrightarrow> available b ! 0 = c"
    using available_first [of b] evaluateBoard_available [OF len ev] by simp
  with True show ?thesis
    unfolding getNextMove_mustWin [OF av sw] getStrategicMove_critical [OF ev] by auto
next
  case False
  with br have "rnd k < 9 / 10" "c \<noteq> 0" by simp_all
  with False show ?thesis
    unfolding getNextMove_mustWin [OF av sw] getStrategicMove_critical [OF ev]
    by (simp add: orRandom_keeps)
qed


lemma exampleBot_eq:
  "exampleBot = \<lparr>gameId = ''g1'', betAmount = 50, opponentAddress = Some ''h@x'',
                  shouldWin = True, drawCount = 0, maxDrawsBeforeEnd = 3\<rparr>"
  by (simp add: exampleBot_def newBotPlayer_def determineOutcome_def truthy_def emptyScripter_def
      PATTERN_50_SATS_def randomIndex_def Let_def)

lemmas bot_defs = botTurn_def humanTurn_def makeBotMove_def getNextMove_def getStrategicMove_def
  orRandom_def evaluateBoard_def indexOf_def pick_def randomIndex_def checkPotentialDraw_def
  available_def emptyCells_def gameEnd_def truthy_def symbolOf_def endMessage_def

text \<open>
  Claim C8 as it is written fails: a must-win bot can lose to legal moves. In the
  example match the bot is built for the first 50-sats game of its opponent (script token
  W, so \<^verbatim>\<open>shouldWin\<close> is true) and every random draw is 0, which keeps it on its strategic
  branch. The human plays cells 0, 8, 6 and 3; the bot answers 4 (centre), 2 (a corner)
  and 7 (a block), and the human completes the line 0-3-6.
\<close>

theorem mustWin_session_loses:
  "shouldWin exampleBot \<and>
   mustWinLoses =
     (\<lparr>gid = ''g1'', wager = 50,
       players =
         [(''h'', \<lparr>socketId = ''h'', lightningAddress = Some ''h@x'', isBot = False,
                   symbol = SymX, ready = False\<rparr>),
          (''bot_1'', \<lparr>socketId = ''bot_1'', lightningAddress = Some ''b@speed.app'',
                       isBot = True, symbol = SymO, ready = False\<rparr>)],
       board = [Some SymX, None, Some SymO, Some SymX, Some SymO, None,
                Some SymX, Some SymO, Some SymX],
       turn = Some ''h'', status = Finished, winner = WinnerId (Some ''h''), winLine = [0, 3, 6],
       turnTimer = None, isFirstTurn = False, moveCount = 7,
       startingPlayer = Some ''h'', turnDeadlineAt = Some 7000\<rparr>,
      Some \<lparr>gameId = ''g1'', betAmount = 50, opponentAddress = Some ''h@x'',
             shouldWin = True, drawCount = 1, maxDrawsBeforeEnd = 3\<rparr>,
      4)"
  unfolding mustWinLoses_def exampleMatch_eq exampleBot_eq
  by (simp add: play_defs bot_defs upt_rec)


text \<open>
  Claim C8, amended. A must-win bot on a 9-cell board with an empty cell, whatever the
  random draws: it selects an empty cell and stays must-win; when the end is forced
  (the board holds five marks or more and the draw count reaches the tolerance), or on
  the 90 percent branch when the cell is not cell 0, it selects the cell that
  \<^verbatim>\<open>evaluateBoard\<close> gives, if it gives one. \<^verbatim>\<open>evaluateBoard\<close> gives a cell that completes a line
  of \<^verbatim>\<open>'O'\<close> whenever some line holds two \<^verbatim>\<open>'O'\<close> and an empty cell, and otherwise the empty
  cell of a line holding two \<^verbatim>\<open>'X'\<close> whenever there is such a line. Nothing more is
  promised: the bot can lose.
\<close>

theorem mustWin_moves:
  "length b = 9 \<Longrightarrow> available b \<noteq> [] \<Longrightarrow> \<forall>n. 0 \<le> rnd n \<and> rnd n < 1 \<Longrightarrow> shouldWin bp \<Longrightarrow>
   (\<exists>i. fst (getNextMove rnd k b bp) = Some i \<and> i < 9 \<and> b ! i = None) \<and>
   shouldWin (fst (snd (getNextMove rnd k b bp))) \<and>
   (\<forall>c. evaluateBoard b = Some c \<and> (forcedEnd bp b \<or> rnd k < 9 / 10 \<and> c \<noteq> 0) \<longrightarrow>
        fst (getNextMove rnd k b bp) = Some c) \<and>
   ((\<exists>l \<in> set lines. \<exists>c. threatAt SymO b l c) \<longrightarrow>
      (\<exists>c. evaluateBoard b = Some c \<and>
           (\<exists>(i, j, k) \<in> set lines. b[c := Some SymO] ! i = Some SymO \<and>
               b[c := Some SymO] ! j = Some SymO \<and> b[c := Some SymO] ! k = Some SymO))) \<and>
   (\<not> (\<exists>l \<in> set lines. \<exists>c. threatAt SymO b l c) \<and> (\<exists>l \<in> set lines. \<exists>c. threatAt SymX b l c) \<longrightarrow>
      (\<exists>c. evaluateBoard b = Some c \<and> (\<exists>l \<in> set lines. threatAt SymX b l c)))"
proof -
  assume len: "length b = 9" and av: "available b \<noteq> []"
    and rnd: "\<forall>n. 0 \<le> rnd n \<and> rnd n < 1" and sw: "shouldWin bp"
  from getNextMove_mustWin_legal [OF len av rnd sw, of k] len
  have legal: "\<exists>i. fst (getNextMove rnd k b bp) = Some i \<and> i < 9 \<and> b ! i = None"
    by (auto simp: available_iff)
  have keep: "shouldWin (fst (snd (getNextMove rnd k b bp)))"
    unfolding getNextMove_mustWin [OF av sw] using sw by (simp add: checkPotentialDraw_def)
  have crit: "\<forall>c. evaluateBoard b = Some c \<and> (forcedEnd bp b \<or> rnd k < 9 / 10 \<and> c \<noteq> 0) \<longrightarrow>
        fst (getNextMove rnd k b bp) = Some c"
    using getNextMove_mustWin_critical [OF len av sw] by blast
  have win: "(\<exists>l \<in> set lines. \<exists>c. threatAt SymO b l c) \<longrightarrow>
      (\<exists>c. evaluateBoard b = Some c \<and>
           (\<exists>(i, j, k) \<in> set lines. b[c := Some SymO] ! i = Some SymO \<and>
               b[c := Some SymO] ! j = Some SymO \<and> b[c := Some SymO] ! k = Some SymO))"
  proof
    assume "\<exists>l \<in> set lines. \<exists>c. threatAt SymO b l c"
    then obtain c where c: "critical SymO b lines = Some c" using threatAt_critical by blast
    then have e: "evaluateBoard b = Some c" by (simp add: evaluateBoard_def)
    from critical_Some [OF c] obtain l where "l \<in> set lines" "threatAt SymO b l c" by blast
    from threatAt_completes [OF this len] e
    show "\<exists>c. evaluateBoard b = Some c \<and>
           (\<exists>(i, j, k) \<in> set lines. b[c := Some SymO] ! i = Some SymO \<and>
               b[c := Some SymO] ! j = Some SymO \<and> b[c := Some SymO] ! k = Some SymO)" by blast
  qed
  have block: "\<not> (\<exists>l \<in> set lines. \<exists>c. threatAt SymO b l c) \<and> (\<exists>l \<in> set lines. \<exists>c. threatAt SymX b l c) \<longrightarrow>
      (\<exists>c. evaluateBoard b = Some c \<and> (\<exists>l \<in> set lines. threatAt SymX b l c))"
  proof
    assume h: "\<not> (\<exists>l \<in> set lines. \<exists>c. threatAt SymO b l c) \<and> (\<exists>l \<in> set lines. \<exists>c. threatAt SymX b l c)"
    have o: "critical SymO b lines = None"
    proof (cases "critical SymO b lines")
      case (Some c)
      from critical_Some [OF Some] h show ?thesis by blast
    qed simp
    from h obtain c where c: "critical SymX b lines = Some c" using threatAt_critical by blast
    with o have e: "evaluateBoard b = Some c" by (simp add: evaluateBoard_def)
    from critical_Some [OF c] e
    show "\<exists>c. evaluateBoard b = Some c \<and> (\<exists>l \<in> set lines. threatAt SymX b l c)" by blast
  qed
  from legal keep crit win block show ?thesis by blast
qed

theorem mustWin_moves_witness:
  "length [Some SymX, Some SymX, Some SymO, None, Some SymO, None, None, None, None] = 9 \<and>
   shouldWin exampleBot \<and>
   evaluateBoard [Some SymX, Some SymX, Some SymO, None, Some SymO, None, None, None, None] = Some 6 \<and>
   fst (getNextMove (\<lambda>n. 0) 0
          [Some SymX, Some SymX, Some SymO, None, Some SymO, None, None, None, None] exampleBot) =
     Some 6"
proof -
  let ?b = "[Some SymX, Some SymX, Some SymO, None, Some SymO, None, None, None, None]"
  have len: "length ?b = 9" by simp
  have av: "available ?b \<noteq> []" by (simp add: available_def upt_rec)
  have rnd: "\<forall>n. (0::real) \<le> (\<lambda>n. 0) n \<and> (\<lambda>n. 0) n < (1::real)" by simp
  have sw: "shouldWin exampleBot" by (simp add: exampleBot_eq)
  have ev: "evaluateBoard ?b = Some 6"
    by (simp add: evaluateBoard_def lines_def indexOf_def)
  from mustWin_moves [OF len av rnd sw, of 0] ev len sw show ?thesis by simp
qed

section \<open>Bot sessions and the end of a match\<close>


lemma handleGameEnd_activeBots: "activeBots (handleGameEnd gi wi w) = activeBots w"
  by (cases "map_of (games w) gi") (simp_all add: handleGameEnd_def)

lemma enqueuedSpawn_activeBots:
  "activeBots (enqueuedSpawnTimerFires r1 r2 sid sockAddr bet botId botAddress gi w) = activeBots w"
  by (simp add: enqueuedSpawnTimerFires_def Let_def)

lemma botWorld_eq:
  "botWorld =
     \<lparr>games =
        [(''g1'',
          \<lparr>gid = ''g1'', wager = 50,
            players =
              [(''h'', \<lparr>socketId = ''h'', lightningAddress = Some ''h@x'', isBot = False,
                        symbol = SymX, ready = False\<rparr>),
               (''bot_1'', \<lparr>socketId = ''bot_1'', lightningAddress = Some ''b@speed.app'',
                            isBot = True, symbol = SymO, ready = False\<rparr>)],
            board = emptyBoard, turn = Some ''h'', status = Ready, winner = NoWinner,
            winLine = [], turnTimer = None, isFirstTurn = True, moveCount = 0,
            startingPlayer = Some ''h'', turnDeadlineAt = None\<rparr>)],
      activeBots = [''g1'' \<mapsto> exampleBot],
      scripterMaps = snd (newBotPlayer 0 0 ''g1'' 50 (Some ''h@x'') emptyScripter)\<rparr>"
  unfolding botWorld_def waitingWorld_def botSpawnTimerFires_def exampleBot_def
  by (simp add: addPlayer_def newGame_def split_beta Let_def)

text \<open>
  Claim C9, on the code. The claim says that the bot session of a match is removed from
  \<^verbatim>\<open>activeBots\<close> when the match is \<^verbatim>\<open>finished\<close>. In \<open>botWorld\<close> the spawn timer has attached the
  bot to match \<^verbatim>\<open>g1\<close> and registered its session. \<^verbatim>\<open>handleGameEnd\<close>, as bound, finishes the
  match and leaves the session registered; the first declaration of \<^verbatim>\<open>handleGameEnd\<close>,
  which the second replaces, would have removed it.
\<close>

theorem session_outlives_match:
  "activeBots waitingWorld ''g1'' = None \<and>
   activeBots botWorld ''g1'' = Some exampleBot \<and>
   map_option status (map_of (games (handleGameEnd ''g1'' (Some ''bot_1'') botWorld)) ''g1'') =
     Some Finished \<and>
   activeBots (handleGameEnd ''g1'' (Some ''bot_1'') botWorld) ''g1'' = Some exampleBot \<and>
   activeBots (handleGameEnd_first ''g1'' (Some ''bot_1'') botWorld) ''g1'' = None"
  unfolding botWorld_eq
  by (simp add: waitingWorld_def handleGameEnd_def handleGameEnd_first_def gameEnd_def
      clearTurnTimer_def Let_def)

section \<open>The marks of a match with a bot\<close>


lemma addPlayer_first:
  "addPlayer r sid addr robot (newGame gi bet) =
     (SymX, (newGame gi bet)\<lparr>players := [(sid, \<lparr>socketId = sid, lightningAddress = addr,
                                   isBot = robot, symbol = SymX, ready = False\<rparr>)]\<rparr>)"
  by (simp add: addPlayer_def newGame_def Let_def)

lemma addPlayer_second:
  assumes "players g = [(sid, p)]" "botId \<noteq> sid"
  shows "fst (addPlayer r botId addr robot g) = SymO \<and>
         players (snd (addPlayer r botId addr robot g)) =
           [(sid, p), (botId, \<lparr>socketId = botId, lightningAddress = addr, isBot = robot,
                               symbol = SymO, ready = False\<rparr>)]"
  using assms by (simp add: addPlayer_def Let_def)

lemma find_one_slot:
  assumes "find (\<lambda>(i, g). map_of (players g) sid \<noteq> None \<and> length (players g) = 1) gs = Some (i, g)"
  shows "\<exists>p. players g = [(sid, p)]"
proof -
  from assms have "map_of (players g) sid \<noteq> None \<and> length (players g) = 1"
    by (auto simp: find_Some_iff)
  then show ?thesis
    by (cases "players g") (auto split: if_splits)
qed

lemma map_of_setKey: "map_of (setKey k v ps) k = Some v"
  by (induction ps) auto

lemma botSpawn_attaches:
  assumes f: "find (\<lambda>(i, g). map_of (players g) sid \<noteq> None \<and> length (players g) = 1) (games w) = Some (i, g)"
    and ne: "botId \<noteq> sid"
  shows "\<exists>p g'. players g = [(sid, p)] \<and>
           map_of (games (botSpawnTimerFires r1 r2 r3 sid sockAddr botId botAddress w)) i = Some g' \<and>
           players g' = [(sid, p), (botId, \<lparr>socketId = botId, lightningAddress = Some botAddress,
                                             isBot = True, symbol = SymO, ready = False\<rparr>)]"
proof -
  from find_one_slot [OF f] obtain p where p: "players g = [(sid, p)]" by blast
  from addPlayer_second [OF p ne, of r3 "Some botAddress" True] p f show ?thesis
    by (simp add: botSpawnTimerFires_def split_beta map_of_setKey)
qed

lemma botSpawn_no_match:
  assumes "find (\<lambda>(i, g). map_of (players g) sid \<noteq> None \<and> length (players g) = 1) (games w) = None"
  shows "botSpawnTimerFires r1 r2 r3 sid sockAddr botId botAddress w = w"
  using assms by (simp add: botSpawnTimerFires_def)

lemma nonBlockMoves_Cons:
  "nonBlockMoves b av ((i, j, k) # ls) =
     (if length (filter (\<lambda>v. v = Some SymX) [b ! i, b ! j, b ! k]) = 2 \<and>
         None \<in> set [b ! i, b ! j, b ! k]
      then (if length (filter (\<lambda>m. m \<noteq> [i, j, k] ! indexOf None [b ! i, b ! j, b ! k]) av) > 0
            then Some (filter (\<lambda>m. m \<noteq> [i, j, k] ! indexOf None [b ! i, b ! j, b ! k]) av)
            else nonBlockMoves b av ls)
      else nonBlockMoves b av ls)"
  by (simp only: nonBlockMoves.simps Let_def)

lemma nonBlockMoves_Some:
  "nonBlockMoves b av ls = Some nb \<Longrightarrow>
   \<exists>l \<in> set ls. \<exists>c. threatAt SymX b l c \<and> nb = filter (\<lambda>m. m \<noteq> c) av \<and> nb \<noteq> []"
proof (induction ls)
  case Nil
  then show ?case by simp
next
  case (Cons l ls)
  obtain i j k where l: "l = (i, j, k)" by (cases l) auto
  let ?c = "[i, j, k] ! indexOf None [b ! i, b ! j, b ! k]"
  show ?case
  proof (cases "(length (filter (\<lambda>v. v = Some SymX) [b ! i, b ! j, b ! k]) = 2 \<and>
                None \<in> set [b ! i, b ! j, b ! k]) \<and> length (filter (\<lambda>m. m \<noteq> ?c) av) > 0")
    case True
    then have "nonBlockMoves b av (l # ls) = Some (filter (\<lambda>m. m \<noteq> ?c) av)"
      unfolding l nonBlockMoves_Cons by simp
    with Cons.prems have nb: "nb = filter (\<lambda>m. m \<noteq> ?c) av" by simp
    from True critical_line [of SymX "b ! i" "b ! j" "b ! k"]
    have "threatAt SymX b (i, j, k) ?c" unfolding threatAt_def by auto
    with nb True l show ?thesis by auto
  next
    case False
    then have "nonBlockMoves b av (l # ls) = nonBlockMoves b av ls"
      unfolding l nonBlockMoves_Cons by auto
    with Cons.prems Cons.IH show ?thesis by auto
  qed
qed


lemma enqueuedSpawn_players:
  assumes "sid \<noteq> botId"
  shows "\<exists>g'. map_of (games (enqueuedSpawnTimerFires r1 r2 sid sockAddr bet botId botAddress gi w)) gi = Some g' \<and>
           players g' =
             [(sid, \<lparr>socketId = sid, lightningAddress = sockAddr, isBot = False,
                     symbol = SymX, ready = False\<rparr>),
              (botId, \<lparr>socketId = botId, lightningAddress = Some botAddress, isBot = True,
                       symbol = SymO, ready = False\<rparr>)]"
proof -
  let ?g1 = "snd (addPlayer r1 sid sockAddr False (newGame gi bet))"
  have p1: "players ?g1 = [(sid, \<lparr>socketId = sid, lightningAddress = sockAddr, isBot = False,
                     symbol = SymX, ready = False\<rparr>)]"
    by (simp add: addPlayer_first)
  from addPlayer_second [OF p1, of botId r2 "Some botAddress" True] assms show ?thesis
    by (simp add: enqueuedSpawnTimerFires_def Let_def map_of_setKey)
qed

lemma waitingWorld_eq:
  "waitingWorld =
     \<lparr>games = [(''g1'', (newGame ''g1'' 50)\<lparr>players :=
          [(''h'', \<lparr>socketId = ''h'', lightningAddress = Some ''h@x'', isBot = False,
                    symbol = SymX, ready = False\<rparr>)]\<rparr>)],
      activeBots = Map.empty, scripterMaps = emptyScripter\<rparr>"
  by (simp add: waitingWorld_def addPlayer_first)

lemma paidOnce: "paymentConfirmed 0 ''h'' (Some ''h@x'') 50 ''g1'' emptyWorld = waitingWorld"
  unfolding waitingWorld_eq
  by (simp add: paymentConfirmed_def emptyWorld_def addPlayer_first)

lemma paidTwice_eq:
  "paidTwice =
     \<lparr>games = [(''g1'', (newGame ''g1'' 50)\<lparr>players :=
          [(''h'', \<lparr>socketId = ''h'', lightningAddress = Some ''h@x'', isBot = False,
                    symbol = SymO, ready = False\<rparr>)]\<rparr>)],
      activeBots = Map.empty, scripterMaps = emptyScripter\<rparr>"
  unfolding paidTwice_def waitingWorld_eq
  by (simp add: paymentConfirmed_def addPlayer_def newGame_def Let_def)

lemma twoNoughts_games:
  "games twoNoughts =
     [(''g1'',
       \<lparr>gid = ''g1'', wager = 50,
         players =
           [(''h'', \<lparr>socketId = ''h'', lightningAddress = Some ''h@x'', isBot = False,
                     symbol = SymO, ready = False\<rparr>),
            (''bot_1'', \<lparr>socketId = ''bot_1'', lightningAddress = Some ''b@speed.app'',
                         isBot = True, symbol = SymO, ready = False\<rparr>)],
         board = emptyBoard, turn = Some ''h'', status = Ready, winner = NoWinner,
         winLine = [], turnTimer = None, isFirstTurn = True, moveCount = 0,
         startingPlayer = Some ''h'', turnDeadlineAt = None\<rparr>)]"
  unfolding twoNoughts_def paidTwice_eq botSpawnTimerFires_def
  by (simp add: addPlayer_def newGame_def split_beta Let_def)

lemma twoNoughtsMatch_eq:
  "twoNoughtsMatch =
     \<lparr>gid = ''g1'', wager = 50,
      players =
        [(''h'', \<lparr>socketId = ''h'', lightningAddress = Some ''h@x'', isBot = False,
                  symbol = SymO, ready = False\<rparr>),
         (''bot_1'', \<lparr>socketId = ''bot_1'', lightningAddress = Some ''b@speed.app'',
                      isBot = True, symbol = SymO, ready = False\<rparr>)],
      board = [None, None, None, None, None, None, None, None, None],
      turn = Some ''h'', status = Playing, winner = NoWinner, winLine = [],
      turnTimer = Some 8000, isFirstTurn = True, moveCount = 0,
      startingPlayer = Some ''h'', turnDeadlineAt = Some 9000\<rparr>"
  unfolding twoNoughtsMatch_def twoNoughts_games
  by (simp add: countdownEnds_def startTurnTimer_def emptyBoard_def clearTurnTimer_def Let_def
      numeral_eq_Suc)

lemma twoNoughts_bot: "activeBots twoNoughts ''g1'' = Some exampleBot"
  unfolding twoNoughts_def paidTwice_eq botSpawnTimerFires_def exampleBot_def
  by (simp add: addPlayer_def newGame_def split_beta Let_def)

lemma twoNoughtsPlay_eq:
  "twoNoughtsPlay =
     (\<lparr>gid = ''g1'', wager = 50,
       players =
         [(''h'', \<lparr>socketId = ''h'', lightningAddress = Some ''h@x'', isBot = False,
                   symbol = SymO, ready = False\<rparr>),
          (''bot_1'', \<lparr>socketId = ''bot_1'', lightningAddress = Some ''b@speed.app'',
                       isBot = True, symbol = SymO, ready = False\<rparr>)],
       board = [Some SymO, None, None, None, Some SymO, None, None, None, Some SymO],
       turn = Some ''h'', status = Finished, winner = WinnerId (Some ''h''), winLine = [0, 4, 8],
       turnTimer = None, isFirstTurn = False, moveCount = 3,
       startingPlayer = Some ''h'', turnDeadlineAt = Some 7000\<rparr>,
      Some exampleBot, 1)"
  unfolding twoNoughtsPlay_def twoNoughts_bot twoNoughtsMatch_eq exampleBot_eq
  by (simp add: play_defs bot_defs upt_rec)

text \<open>
  The bot's move selection is written for the marks of a match whose human holds \<^verbatim>\<open>'X'\<close>:
  \<^verbatim>\<open>evaluateBoard\<close> gives a cell that completes a line of \<^verbatim>\<open>'O'\<close> whenever there is one, and
  only when there is none a cell that blocks a line of \<^verbatim>\<open>'X'\<close>; the silly mistake picks among
  the cells that leave a line of \<^verbatim>\<open>'X'\<close> unblocked.
\<close>

lemma evaluateBoard_own_first:
  assumes "l \<in> set lines" "threatAt SymO b l c"
  shows "\<exists>c' l'. evaluateBoard b = Some c' \<and> l' \<in> set lines \<and> threatAt SymO b l' c'"
proof -
  from threatAt_critical [OF assms] obtain c' where c': "critical SymO b lines = Some c'" by blast
  from critical_Some [OF c'] obtain l' where l': "l' \<in> set lines" "threatAt SymO b l' c'" by blast
  from c' have "evaluateBoard b = Some c'" by (simp add: evaluateBoard_def)
  with l' show ?thesis by blast
qed

lemma evaluateBoard_block:
  assumes "\<not> (\<exists>l \<in> set lines. \<exists>c'. threatAt SymO b l c')" "evaluateBoard b = Some c"
  shows "\<exists>l \<in> set lines. threatAt SymX b l c"
proof (cases "critical SymO b lines")
  case None
  with assms(2) have "critical SymX b lines = Some c" by (simp add: evaluateBoard_def)
  then show ?thesis by (rule critical_Some)
next
  case (Some c')
  from critical_Some [OF Some] assms(1) show ?thesis by blast
qed

lemma makeSillyMistake_unblocked:
  assumes "nonBlockMoves b (available b) lines = Some nb"
  shows "makeSillyMistake rnd k b = (pick (rnd k) nb, Suc k) \<and>
         (\<exists>l \<in> set lines. \<exists>c. threatAt SymX b l c \<and> nb = filter (\<lambda>m. m \<noteq> c) (available b) \<and>
            nb \<noteq> [])"
  using assms nonBlockMoves_Some [OF assms] by (simp add: makeSillyMistake_def)

text \<open>
  Claim C10, on the code. The claim says that in every match with a bot the human holds
  \<^verbatim>\<open>'X'\<close> in the first slot and the bot \<^verbatim>\<open>'O'\<close> in the second, the match giving \<^verbatim>\<open>'X'\<close> to the
  first joiner and \<^verbatim>\<open>'O'\<close> to the second. \<^verbatim>\<open>addPlayer\<close> gives \<^verbatim>\<open>'X'\<close> only when the match has no
  player yet, and the webhook's payment case adds the paying socket to the first
  one-player match of its amount without asking whether that one player is the socket
  itself (\<^verbatim>\<open>attemptMatchOrEnqueue\<close> asks, and leaves the registries alone). The first payment
  of \<^verbatim>\<open>h\<close> puts it into the new match \<^verbatim>\<open>g1\<close> with \<^verbatim>\<open>'X'\<close>. When \<^verbatim>\<open>h\<close>, still waiting alone in
  \<^verbatim>\<open>g1\<close>, pays a second invoice of the same amount, its entry is overwritten with \<^verbatim>\<open>'O'\<close>; the
  spawn timer of the first payment then attaches the bot, with \<^verbatim>\<open>'O'\<close> as well. In the match
  that starts, every mark placed is \<^verbatim>\<open>'O'\<close>: the human takes cell 0, the bot takes the centre,
  the human takes cell 8, and the line 0-4-8 is complete: the match is \<^verbatim>\<open>finished\<close> at its
  third move, the human being the winner.
\<close>

theorem rejoined_human_holds_O:
  "paymentConfirmed 0 ''h'' (Some ''h@x'') 50 ''g1'' emptyWorld = waitingWorld \<and>
   slots waitingWorld = [(''g1'', [(''h'', False, SymX)])] \<and>
   slots paidTwice = [(''g1'', [(''h'', False, SymO)])] \<and>
   slots twoNoughts = [(''g1'', [(''h'', False, SymO), (''bot_1'', True, SymO)])] \<and>
   attemptMatchOrEnqueue 0 ''h'' (Some ''h@x'') 50 ''g2'' waitingWorld = waitingWorld \<and>
   board (fst twoNoughtsPlay) =
     [Some SymO, None, None, None, Some SymO, None, None, None, Some SymO] \<and>
   moveCount (fst twoNoughtsPlay) = 3 \<and>
   status (fst twoNoughtsPlay) = Finished \<and>
   winner (fst twoNoughtsPlay) = WinnerId (Some ''h'')"
proof -
  have a: "slots waitingWorld = [(''g1'', [(''h'', False, SymX)])]"
    unfolding waitingWorld_eq by (simp add: slots_def)
  have b: "slots paidTwice = [(''g1'', [(''h'', False, SymO)])]"
    unfolding paidTwice_eq by (simp add: slots_def)
  have c: "slots twoNoughts = [(''g1'', [(''h'', False, SymO), (''bot_1'', True, SymO)])]"
    unfolding slots_def twoNoughts_games by simp
  have d: "attemptMatchOrEnqueue 0 ''h'' (Some ''h@x'') 50 ''g2'' waitingWorld = waitingWorld"
    unfolding attemptMatchOrEnqueue_def waitingWorld_eq by simp
  have e: "board (fst twoNoughtsPlay) =
             [Some SymO, None, None, None, Some SymO, None, None, None, Some SymO]"
    "moveCount (fst twoNoughtsPlay) = 3"
    "status (fst twoNoughtsPlay) = Finished"
    "winner (fst twoNoughtsPlay) = WinnerId (Some ''h'')"
    unfolding twoNoughtsPlay_eq by simp_all
  from paidOnce a b c d e show ?thesis by blast
qed

end
